theory Spec2Isabelle
  imports Main "HOL-Library.AList" "HOL-Library.Word"
begin

section \<open>Data model\<close>

text \<open>
  A JavaScript \<^verbatim>\<open>Error\<close> is modelled by its message. The providers throw
  \<^verbatim>\<open>new Error('File not found')\<close> themselves; the file-system and bucket primitives
  reject with an error whose code is kept as the message (\<^verbatim>\<open>ENOENT\<close>, \<^verbatim>\<open>EACCES\<close>),
  and \<^verbatim>\<open>JSON.parse\<close> throws a \<^verbatim>\<open>SyntaxError\<close>.
\<close>

datatype error = Error string

type_synonym buffer = "8 word list"

text \<open>
  The metadata object built by \<^verbatim>\<open>uploadFile\<close>. Time stamps are the millisecond values of
  the \<^verbatim>\<open>Date\<close> objects (the source stores them as ISO-8601 strings written by
  \<^verbatim>\<open>toISOString\<close> and reads them back with \<^verbatim>\<open>new Date\<close>); \<^verbatim>\<open>lastAccessed\<close> is
  \<^verbatim>\<open>null\<close> until the first download.
\<close>

record metadata =
  publicKey :: string
  privateKey :: string
  originalName :: string
  mimeType :: string
  createdAt :: int
  lastAccessed :: "int option"
  fileSize :: nat

text \<open>
  The text of a \<^verbatim>\<open>.json\<close> file: either what \<^verbatim>\<open>JSON.stringify\<close> wrote for a metadata
  object, which \<^verbatim>\<open>JSON.parse\<close> gives back, or text on which \<^verbatim>\<open>JSON.parse\<close> throws.
\<close>

datatype 'm document = Unparseable | Document 'm

definition JSON_parse :: "'m document \<Rightarrow> error + 'm" where
  "JSON_parse text = (case text of Unparseable \<Rightarrow> Inl (Error ''SyntaxError'') | Document m \<Rightarrow> Inr m)"

text \<open>\<^verbatim>\<open>const referenceDate = lastAccessed || createdAt\<close>: a \<^verbatim>\<open>Date\<close> object is truthy.\<close>

definition referenceDate :: "'a metadata_scheme \<Rightarrow> int" where
  "referenceDate m = (case lastAccessed m of Some t \<Rightarrow> t | None \<Rightarrow> createdAt m)"

subsection \<open>String helpers of the JavaScript runtime\<close>

definition startsWith :: "string \<Rightarrow> string \<Rightarrow> bool" where
  "startsWith s pre = (take (length pre) s = pre)"

definition endsWith :: "string \<Rightarrow> string \<Rightarrow> bool" where
  "endsWith s suf = (length suf \<le> length s \<and> drop (length s - length suf) s = suf)"

text \<open>\<^verbatim>\<open>s.replace(pat, rep)\<close> with a string pattern replaces the first occurrence only.\<close>

fun replace :: "string \<Rightarrow> string \<Rightarrow> string \<Rightarrow> string" where
  "replace [] pat rep = (if pat = [] then rep else [])"
| "replace (c # cs) pat rep =
     (if startsWith (c # cs) pat then rep @ drop (length pat) (c # cs)
      else c # replace cs pat rep)"

text \<open>
  \<^verbatim>\<open>crypto.randomBytes(32).toString('hex')\<close> yields 64 lower-case hexadecimal digits. The random
  draw itself is an input of the model: \<^verbatim>\<open>uploadFile\<close> takes the pair that
  \<^verbatim>\<open>_generateKeys\<close> returned.
\<close>

definition hexKey :: "string \<Rightarrow> bool" where
  "hexKey k = (length k = 64 \<and> list_all (\<lambda>c. c \<in> set ''0123456789abcdef'') k)"

section \<open>LocalFileSystemProvider\<close>

text \<open>
  The root folder holds \<^verbatim>\<open>files/\<close> (content named by public key) and \<^verbatim>\<open>.metadata/\<close>
  (one JSON document per key). A folder is an association list from file name to content, in
  the order \<^verbatim>\<open>readdir\<close> lists it. A path is the folder and the name joined by
  \<^verbatim>\<open>path.join\<close>.
\<close>

record localfs =
  filesFolder :: "(string \<times> buffer) list"
  metadataFolder :: "(string \<times> metadata document) list"

datatype folder = FilesFolder | MetadataFolder

type_synonym path = "folder \<times> string"

definition emptyLocal :: localfs where
  "emptyLocal = \<lparr>filesFolder = [], metadataFolder = []\<rparr>"

definition Local_getMetadataPath :: "string \<Rightarrow> string" where
  "Local_getMetadataPath key = key @ ''.json''"

definition Local_getFilePath :: "string \<Rightarrow> string" where
  "Local_getFilePath key = key"

text \<open>
  \<^verbatim>\<open>fs.writeFile\<close> creates or overwrites the file. It rejects on the paths the environment
  refuses (\<open>unwritable\<close>: a full disk, a read-only file), leaving the folder as it was.
  \<^verbatim>\<open>fs.readFile\<close>, \<^verbatim>\<open>fs.access\<close> and \<^verbatim>\<open>fs.unlink\<close> reject with \<^verbatim>\<open>ENOENT\<close> when the
  file is absent, the case the source's comments name.
\<close>

definition writeFile :: "path set \<Rightarrow> string \<Rightarrow> buffer \<Rightarrow> localfs \<Rightarrow> error + localfs" where
  "writeFile unwritable name content fs =
     (if (FilesFolder, name) \<in> unwritable then Inl (Error ''EACCES'')
      else Inr (fs\<lparr>filesFolder := AList.update name content (filesFolder fs)\<rparr>))"

definition writeMetadata ::
  "path set \<Rightarrow> string \<Rightarrow> metadata document \<Rightarrow> localfs \<Rightarrow> error + localfs" where
  "writeMetadata unwritable name text fs =
     (if (MetadataFolder, name) \<in> unwritable then Inl (Error ''EACCES'')
      else Inr (fs\<lparr>metadataFolder := AList.update name text (metadataFolder fs)\<rparr>))"

definition readFile :: "string \<Rightarrow> localfs \<Rightarrow> error + buffer" where
  "readFile name fs =
     (case map_of (filesFolder fs) name of None \<Rightarrow> Inl (Error ''ENOENT'') | Some b \<Rightarrow> Inr b)"

definition readMetadata :: "string \<Rightarrow> localfs \<Rightarrow> error + metadata document" where
  "readMetadata name fs =
     (case map_of (metadataFolder fs) name of None \<Rightarrow> Inl (Error ''ENOENT'') | Some t \<Rightarrow> Inr t)"

definition unlinkFile :: "string \<Rightarrow> localfs \<Rightarrow> error + localfs" where
  "unlinkFile name fs =
     (case map_of (filesFolder fs) name of
        None \<Rightarrow> Inl (Error ''ENOENT'')
      | Some b \<Rightarrow> Inr (fs\<lparr>filesFolder := AList.delete name (filesFolder fs)\<rparr>))"

definition unlinkMetadata :: "string \<Rightarrow> localfs \<Rightarrow> error + localfs" where
  "unlinkMetadata name fs =
     (case map_of (metadataFolder fs) name of
        None \<Rightarrow> Inl (Error ''ENOENT'')
      | Some t \<Rightarrow> Inr (fs\<lparr>metadataFolder := AList.delete name (metadataFolder fs)\<rparr>))"

text \<open>\<^verbatim>\<open>try { await fs.unlink(p) } catch (error) { }\<close>\<close>

definition tryUnlinkFile :: "string \<Rightarrow> localfs \<Rightarrow> localfs" where
  "tryUnlinkFile name fs = (case unlinkFile name fs of Inl e \<Rightarrow> fs | Inr fs' \<Rightarrow> fs')"

definition tryUnlinkMetadata :: "string \<Rightarrow> localfs \<Rightarrow> localfs" where
  "tryUnlinkMetadata name fs = (case unlinkMetadata name fs of Inl e \<Rightarrow> fs | Inr fs' \<Rightarrow> fs')"

text \<open>
  \<^verbatim>\<open>uploadFile\<close>: three writes in sequence, no \<^verbatim>\<open>try\<close> around them. A rejected write
  rejects the call at that point with the folder as the earlier writes left it.
  \<open>keys\<close> is the pair drawn by \<^verbatim>\<open>_generateKeys\<close>, \<open>now\<close> the clock.
\<close>

definition Local_uploadFile ::
  "path set \<Rightarrow> string \<times> string \<Rightarrow> int \<Rightarrow> buffer \<Rightarrow> string \<Rightarrow> string \<Rightarrow> localfs
     \<Rightarrow> (error + string \<times> string) \<times> localfs" where
  "Local_uploadFile unwritable keys now fileBuffer origName mime fs =
     (case keys of (pub, priv) \<Rightarrow>
      (case writeFile unwritable (Local_getFilePath pub) fileBuffer fs of
         Inl e \<Rightarrow> (Inl e, fs)
       | Inr fs1 \<Rightarrow>
          (let meta = \<lparr>publicKey = pub, privateKey = priv, originalName = origName,
                       mimeType = mime, createdAt = now, lastAccessed = None,
                       fileSize = length fileBuffer\<rparr>
           in case writeMetadata unwritable (Local_getMetadataPath pub) (Document meta) fs1 of
                Inl e \<Rightarrow> (Inl e, fs1)
              | Inr fs2 \<Rightarrow>
                 (case writeMetadata unwritable (Local_getMetadataPath priv) (Document meta) fs2 of
                    Inl e \<Rightarrow> (Inl e, fs2)
                  | Inr fs3 \<Rightarrow> (Inr (pub, priv), fs3)))))"

text \<open>
  \<^verbatim>\<open>downloadFile(publicKey)\<close>: the argument is whatever key the caller sent. The content is
  read from the file in \<^verbatim>\<open>files/\<close> that has the argument as its name.
\<close>

definition Local_downloadFile ::
  "path set \<Rightarrow> int \<Rightarrow> string \<Rightarrow> localfs \<Rightarrow> (error + buffer \<times> string \<times> string) \<times> localfs" where
  "Local_downloadFile unwritable now key fs =
     (case readMetadata (Local_getMetadataPath key) fs of
        Inl e \<Rightarrow> (Inl (Error ''File not found''), fs)
      | Inr text \<Rightarrow>
         (case JSON_parse text of
            Inl e \<Rightarrow> (Inl e, fs)
          | Inr meta \<Rightarrow>
             (case readFile (Local_getFilePath key) fs of
                Inl e \<Rightarrow> (Inl e, fs)
              | Inr buf \<Rightarrow>
                 (let meta' = meta\<lparr>lastAccessed := Some now\<rparr>
                  in case writeMetadata unwritable (Local_getMetadataPath key) (Document meta') fs of
                       Inl e \<Rightarrow> (Inl e, fs)
                     | Inr fs1 \<Rightarrow>
                        (case writeMetadata unwritable (Local_getMetadataPath (privateKey meta'))
                                (Document meta') fs1 of
                           Inl e \<Rightarrow> (Inl e, fs1)
                         | Inr fs2 \<Rightarrow> (Inr (buf, mimeType meta', originalName meta'), fs2))))))"

text \<open>
  \<^verbatim>\<open>deleteFile(privateKey)\<close>: the argument is whatever key the caller sent. A metadata file
  that is absent or does not parse gives \<^verbatim>\<open>false\<close>; otherwise the content, the metadata
  under the record's public key and the metadata under the argument are unlinked, each in
  its own \<^verbatim>\<open>try\<close>, and the result is \<^verbatim>\<open>true\<close>.
\<close>

definition Local_deleteFile :: "string \<Rightarrow> localfs \<Rightarrow> bool \<times> localfs" where
  "Local_deleteFile key fs =
     (case readMetadata (Local_getMetadataPath key) fs of
        Inl e \<Rightarrow> (False, fs)
      | Inr text \<Rightarrow>
         (case JSON_parse text of
            Inl e \<Rightarrow> (False, fs)
          | Inr meta \<Rightarrow>
             (let fs1 = tryUnlinkFile (Local_getFilePath (publicKey meta)) fs;
                  fs2 = tryUnlinkMetadata (Local_getMetadataPath (publicKey meta)) fs1;
                  fs3 = tryUnlinkMetadata (Local_getMetadataPath key) fs2
              in (True, fs3))))"

text \<open>
  \<^verbatim>\<open>getInactiveFiles(inactiveSince)\<close>: the loop over \<^verbatim>\<open>readdir\<close>. An entry that cannot be
  read or parsed is skipped by the inner \<^verbatim>\<open>catch\<close>.
\<close>

definition Local_inspect :: "int \<Rightarrow> localfs \<Rightarrow> string \<Rightarrow> string list" where
  "Local_inspect inactiveSince fs metadataFile =
     (if endsWith metadataFile ''.json'' then
        (case readMetadata metadataFile fs of
           Inl e \<Rightarrow> []
         | Inr text \<Rightarrow>
            (case JSON_parse text of
               Inl e \<Rightarrow> []
             | Inr meta \<Rightarrow>
                (let keyFromFilename = replace metadataFile ''.json'' []
                 in if privateKey meta = keyFromFilename then
                      (if referenceDate meta < inactiveSince then [privateKey meta] else [])
                    else [])))
      else [])"

fun Local_scan :: "int \<Rightarrow> localfs \<Rightarrow> string list \<Rightarrow> string list \<Rightarrow> string list" where
  "Local_scan inactiveSince fs [] inactiveFiles = inactiveFiles"
| "Local_scan inactiveSince fs (metadataFile # rest) inactiveFiles =
     Local_scan inactiveSince fs rest (inactiveFiles @ Local_inspect inactiveSince fs metadataFile)"

definition Local_getInactiveFiles :: "int \<Rightarrow> localfs \<Rightarrow> string list" where
  "Local_getInactiveFiles inactiveSince fs =
     Local_scan inactiveSince fs (map fst (metadataFolder fs)) []"

section \<open>GoogleCloudStorageProvider\<close>

text \<open>
  One bucket holds every object under its full name: the content under
  \<^verbatim>\<open>filePrefix + publicKey\<close>, the metadata documents under
  \<^verbatim>\<open>metadataPrefix + key + '.json'\<close>. The metadata object has one more field than the
  local provider's, \<^verbatim>\<open>filePath\<close>. An object is a content blob or the text of a JSON
  document; \<^verbatim>\<open>JSON.parse\<close> of a blob is taken to throw (uploaded content is not read as
  metadata).
\<close>

record gmetadata = metadata +
  filePath :: string

datatype gcontent = Blob buffer | Json "gmetadata document"

definition GCS_parse :: "gcontent \<Rightarrow> error + gmetadata" where
  "GCS_parse content =
     (case content of Blob b \<Rightarrow> Inl (Error ''SyntaxError'') | Json text \<Rightarrow> JSON_parse text)"

text \<open>
  \<open>bucket\<close> is \<^verbatim>\<open>this.bucket\<close>: \<^verbatim>\<open>null\<close> until \<^verbatim>\<open>initialize\<close> has run.
  \<open>filePrefixConfig\<close> is \<^verbatim>\<open>this.config.filePrefix\<close> (absent or a string),
  \<open>metadataPrefix\<close> is \<^verbatim>\<open>this.metadataPrefix\<close>, which \<^verbatim>\<open>initialize\<close> sets to
  \<^verbatim>\<open>this.config.metadataPrefix || 'metadata/'\<close>.
\<close>

record gcs =
  bucket :: "(string \<times> gcontent) list option"
  filePrefixConfig :: "string option"
  metadataPrefix :: string

definition initialMetadataPrefix :: "string option \<Rightarrow> string" where
  "initialMetadataPrefix configured =
     (case configured of None \<Rightarrow> ''metadata/'' | Some p \<Rightarrow> if p = [] then ''metadata/'' else p)"

definition GCS_getMetadataPath :: "gcs \<Rightarrow> string \<Rightarrow> string" where
  "GCS_getMetadataPath this key = metadataPrefix this @ key @ ''.json''"

definition GCS_getFilePath :: "gcs \<Rightarrow> string \<Rightarrow> string" where
  "GCS_getFilePath this key =
     (let prefix = (case filePrefixConfig this of
                      None \<Rightarrow> ''files/''
                    | Some p \<Rightarrow> if p = [] then ''files/'' else p)
      in prefix @ key)"

text \<open>
  The bucket primitives on the list of objects: \<^verbatim>\<open>file.save\<close> creates or overwrites and
  rejects on the names the environment refuses; \<^verbatim>\<open>file.exists\<close>; \<^verbatim>\<open>file.download\<close> and
  \<^verbatim>\<open>file.delete\<close> reject when there is no such object.
\<close>

definition bucket_save ::
  "string set \<Rightarrow> string \<Rightarrow> gcontent \<Rightarrow> (string \<times> gcontent) list
     \<Rightarrow> error + (string \<times> gcontent) list" where
  "bucket_save unwritable name content objs =
     (if name \<in> unwritable then Inl (Error ''save failed'')
      else Inr (AList.update name content objs))"

definition bucket_exists :: "string \<Rightarrow> (string \<times> gcontent) list \<Rightarrow> bool" where
  "bucket_exists name objs = (map_of objs name \<noteq> None)"

definition bucket_download :: "string \<Rightarrow> (string \<times> gcontent) list \<Rightarrow> error + gcontent" where
  "bucket_download name objs =
     (case map_of objs name of None \<Rightarrow> Inl (Error ''No such object'') | Some c \<Rightarrow> Inr c)"

definition bucket_delete ::
  "string \<Rightarrow> (string \<times> gcontent) list \<Rightarrow> error + (string \<times> gcontent) list" where
  "bucket_delete name objs =
     (case map_of objs name of
        None \<Rightarrow> Inl (Error ''No such object'')
      | Some c \<Rightarrow> Inr (AList.delete name objs))"

text \<open>\<^verbatim>\<open>try { await file.delete() } catch (error) { console.warn(...) }\<close>\<close>

definition tryDelete :: "string \<Rightarrow> (string \<times> gcontent) list \<Rightarrow> (string \<times> gcontent) list" where
  "tryDelete name objs = (case bucket_delete name objs of Inl e \<Rightarrow> objs | Inr objs' \<Rightarrow> objs')"

definition GCS_uploadFile ::
  "string set \<Rightarrow> string \<times> string \<Rightarrow> int \<Rightarrow> buffer \<Rightarrow> string \<Rightarrow> string \<Rightarrow> gcs
     \<Rightarrow> (error + string \<times> string) \<times> gcs" where
  "GCS_uploadFile unwritable keys now fileBuffer origName mime this =
     (case bucket this of
        None \<Rightarrow> (Inl (Error ''Storage provider not initialized''), this)
      | Some objs \<Rightarrow>
         (case keys of (pub, priv) \<Rightarrow>
          (let path = GCS_getFilePath this pub
           in case bucket_save unwritable path (Blob fileBuffer) objs of
                Inl e \<Rightarrow> (Inl e, this)
              | Inr objs1 \<Rightarrow>
                 (let meta = \<lparr>publicKey = pub, privateKey = priv, originalName = origName,
                              mimeType = mime, createdAt = now, lastAccessed = None,
                              fileSize = length fileBuffer, filePath = path\<rparr>
                  in case bucket_save unwritable (GCS_getMetadataPath this pub)
                            (Json (Document meta)) objs1 of
                       Inl e \<Rightarrow> (Inl e, this\<lparr>bucket := Some objs1\<rparr>)
                     | Inr objs2 \<Rightarrow>
                        (case bucket_save unwritable (GCS_getMetadataPath this priv)
                                (Json (Document meta)) objs2 of
                           Inl e \<Rightarrow> (Inl e, this\<lparr>bucket := Some objs2\<rparr>)
                         | Inr objs3 \<Rightarrow> (Inr (pub, priv), this\<lparr>bucket := Some objs3\<rparr>))))))"

text \<open>
  \<^verbatim>\<open>downloadFile(publicKey)\<close>: the argument is whatever key the caller sent. The content
  is read from \<^verbatim>\<open>metadata.filePath || this._getFilePath(publicKey)\<close>, so from the path the
  record names whenever it names one. The buffer returned is the object found there, as
  stored.
\<close>

definition GCS_downloadFile ::
  "string set \<Rightarrow> int \<Rightarrow> string \<Rightarrow> gcs \<Rightarrow> (error + gcontent \<times> string \<times> string) \<times> gcs" where
  "GCS_downloadFile unwritable now key this =
     (case bucket this of
        None \<Rightarrow> (Inl (Error ''Storage provider not initialized''), this)
      | Some objs \<Rightarrow>
         (let metadataPath = GCS_getMetadataPath this key
          in if \<not> bucket_exists metadataPath objs then (Inl (Error ''File not found''), this)
             else
               (case bucket_download metadataPath objs of
                  Inl e \<Rightarrow> (Inl e, this)
                | Inr content \<Rightarrow>
                   (case GCS_parse content of
                      Inl e \<Rightarrow> (Inl e, this)
                    | Inr meta \<Rightarrow>
                       (let path = (if filePath meta \<noteq> [] then filePath meta
                                    else GCS_getFilePath this key)
                        in case bucket_download path objs of
                             Inl e \<Rightarrow> (Inl e, this)
                           | Inr fileBuffer \<Rightarrow>
                              (let meta' = meta\<lparr>lastAccessed := Some now\<rparr>
                               in case bucket_save unwritable metadataPath (Json (Document meta')) objs of
                                    Inl e \<Rightarrow> (Inl e, this)
                                  | Inr objs1 \<Rightarrow>
                                     (case bucket_save unwritable
                                             (GCS_getMetadataPath this (privateKey meta'))
                                             (Json (Document meta')) objs1 of
                                        Inl e \<Rightarrow> (Inl e, this\<lparr>bucket := Some objs1\<rparr>)
                                      | Inr objs2 \<Rightarrow>
                                         (Inr (fileBuffer, mimeType meta', originalName meta'),
                                          this\<lparr>bucket := Some objs2\<rparr>))))))))"

definition GCS_deleteFile :: "string \<Rightarrow> gcs \<Rightarrow> (error + bool) \<times> gcs" where
  "GCS_deleteFile key this =
     (case bucket this of
        None \<Rightarrow> (Inl (Error ''Storage provider not initialized''), this)
      | Some objs \<Rightarrow>
         (let metadataPath = GCS_getMetadataPath this key
          in if \<not> bucket_exists metadataPath objs then (Inr False, this)
             else
               (case bucket_download metadataPath objs of
                  Inl e \<Rightarrow> (Inr False, this)
                | Inr content \<Rightarrow>
                   (case GCS_parse content of
                      Inl e \<Rightarrow> (Inr False, this)
                    | Inr meta \<Rightarrow>
                       (let path = (if filePath meta \<noteq> [] then filePath meta
                                    else GCS_getFilePath this (publicKey meta));
                            objs1 = tryDelete path objs;
                            objs2 = tryDelete (GCS_getMetadataPath this (publicKey meta)) objs1;
                            objs3 = tryDelete metadataPath objs2
                        in (Inr True, this\<lparr>bucket := Some objs3\<rparr>))))))"

text \<open>
  \<^verbatim>\<open>getInactiveFiles\<close>: \<^verbatim>\<open>bucket.getFiles({prefix})\<close> lists the objects whose name starts
  with the metadata prefix; each is downloaded and parsed inside its own \<^verbatim>\<open>try\<close>.
\<close>

definition getFiles :: "string \<Rightarrow> (string \<times> gcontent) list \<Rightarrow> (string \<times> gcontent) list" where
  "getFiles prefix objs = filter (\<lambda>file. startsWith (fst file) prefix) objs"

definition GCS_inspect :: "int \<Rightarrow> gcs \<Rightarrow> string \<times> gcontent \<Rightarrow> string list" where
  "GCS_inspect inactiveSince this file =
     (case GCS_parse (snd file) of
        Inl e \<Rightarrow> []
      | Inr meta \<Rightarrow>
         (let keyFromFilename = replace (replace (fst file) (metadataPrefix this) []) ''.json'' []
          in if privateKey meta = keyFromFilename then
               (if referenceDate meta < inactiveSince then [privateKey meta] else [])
             else []))"

fun GCS_scan :: "int \<Rightarrow> gcs \<Rightarrow> (string \<times> gcontent) list \<Rightarrow> string list \<Rightarrow> string list" where
  "GCS_scan inactiveSince this [] inactiveFiles = inactiveFiles"
| "GCS_scan inactiveSince this (file # rest) inactiveFiles =
     GCS_scan inactiveSince this rest (inactiveFiles @ GCS_inspect inactiveSince this file)"

definition GCS_getInactiveFiles :: "int \<Rightarrow> gcs \<Rightarrow> error + string list" where
  "GCS_getInactiveFiles inactiveSince this =
     (case bucket this of
        None \<Rightarrow> Inl (Error ''Storage provider not initialized'')
      | Some objs \<Rightarrow> Inr (GCS_scan inactiveSince this (getFiles (metadataPrefix this) objs) []))"

section \<open>The storage provider interface and the cleanup job\<close>

text \<open>
  \<^verbatim>\<open>cleanupJob\<close> and the routes call the provider through the \<^verbatim>\<open>StorageProvider\<close>
  interface; the unit tests pass mocks whose methods resolve or reject. A method is a
  function from the provider's state to its outcome and the new state.
\<close>

record 's StorageProvider =
  uploadFile :: "buffer \<Rightarrow> string \<Rightarrow> string \<Rightarrow> 's \<Rightarrow> (error + string \<times> string) \<times> 's"
  deleteFile :: "string \<Rightarrow> 's \<Rightarrow> (error + bool) \<times> 's"
  getInactiveFiles :: "int \<Rightarrow> 's \<Rightarrow> (error + string list) \<times> 's"

definition LocalFileSystemProvider ::
  "path set \<Rightarrow> string \<times> string \<Rightarrow> int \<Rightarrow> localfs StorageProvider" where
  "LocalFileSystemProvider unwritable keys now =
     \<lparr>uploadFile = Local_uploadFile unwritable keys now,
      deleteFile = (\<lambda>key fs. case Local_deleteFile key fs of (deleted, fs') \<Rightarrow> (Inr deleted, fs')),
      getInactiveFiles = (\<lambda>inactiveSince fs. (Inr (Local_getInactiveFiles inactiveSince fs), fs))\<rparr>"

definition GoogleCloudStorageProvider ::
  "string set \<Rightarrow> string \<times> string \<Rightarrow> int \<Rightarrow> gcs StorageProvider" where
  "GoogleCloudStorageProvider unwritable keys now =
     \<lparr>uploadFile = GCS_uploadFile unwritable keys now,
      deleteFile = GCS_deleteFile,
      getInactiveFiles = (\<lambda>inactiveSince this. (GCS_getInactiveFiles inactiveSince this, this))\<rparr>"

text \<open>
  \<^verbatim>\<open>INACTIVITY_PERIOD_MS\<close>: the argument is what \<^verbatim>\<open>parseInt\<close> made of the environment
  variable (\<open>None\<close> for \<^verbatim>\<open>NaN\<close>); \<^verbatim>\<open>NaN\<close> and \<open>0\<close> fall back to 30 days.
\<close>

definition INACTIVITY_PERIOD_MS :: "int option \<Rightarrow> int" where
  "INACTIVITY_PERIOD_MS days =
     (case days of None \<Rightarrow> 30 | Some d \<Rightarrow> if d = 0 then 30 else d) * 24 * 60 * 60 * 1000"

text \<open>
  The \<^verbatim>\<open>for\<close> loop of \<^verbatim>\<open>runCleanup\<close>: each \<^verbatim>\<open>deleteFile\<close> is awaited inside its own
  \<^verbatim>\<open>try\<close>; a rejection is logged and the loop goes on.
\<close>

fun cleanupLoop :: "'s StorageProvider \<Rightarrow> string list \<Rightarrow> nat \<Rightarrow> 's \<Rightarrow> nat \<times> 's" where
  "cleanupLoop provider [] deletedCount s = (deletedCount, s)"
| "cleanupLoop provider (file # rest) deletedCount s =
     (case deleteFile provider file s of
        (Inl e, s') \<Rightarrow> cleanupLoop provider rest deletedCount s'
      | (Inr deleted, s') \<Rightarrow>
          cleanupLoop provider rest (if deleted then deletedCount + 1 else deletedCount) s')"

text \<open>
  \<^verbatim>\<open>new Date(v)\<close> holds a time value only when \<open>\<bar>v\<bar> \<le> 8.64 \<times> 10\<^sup>1\<^sup>5\<close> milliseconds; outside
  that range (and for the infinite or \<^verbatim>\<open>NaN\<close> results of an oversized period, which are
  oversized integers here) the date is invalid and \<^verbatim>\<open>toISOString()\<close> throws a
  \<^verbatim>\<open>RangeError\<close>.
\<close>

definition validDate :: "int \<Rightarrow> bool" where
  "validDate v = (\<bar>v\<bar> \<le> 8640000000000000)"

text \<open>
  \<open>storageProvider\<close> is the module variable: \<^verbatim>\<open>null\<close> until \<^verbatim>\<open>initialize\<close>. Inside the
  outer \<^verbatim>\<open>try\<close> the cutoff is logged with \<^verbatim>\<open>inactiveSince.toISOString()\<close> before
  anything else happens: with an invalid cutoff that call throws, the outer \<^verbatim>\<open>catch\<close>
  returns 0, and neither \<^verbatim>\<open>getInactiveFiles\<close> nor \<^verbatim>\<open>deleteFile\<close> has been called. A
  rejected \<^verbatim>\<open>getInactiveFiles\<close> ends in the same \<^verbatim>\<open>catch\<close>.
\<close>

definition runCleanup :: "'s StorageProvider option \<Rightarrow> int option \<Rightarrow> int \<Rightarrow> 's \<Rightarrow> nat \<times> 's" where
  "runCleanup storageProvider days now s =
     (case storageProvider of
        None \<Rightarrow> (0, s)
      | Some provider \<Rightarrow>
         (let inactiveSince = now - INACTIVITY_PERIOD_MS days
          in if \<not> validDate inactiveSince then (0, s)
             else
               (case getInactiveFiles provider inactiveSince s of
                  (Inl e, s') \<Rightarrow> (0, s')
                | (Inr inactiveFiles, s') \<Rightarrow> cleanupLoop provider inactiveFiles 0 s')))"

text \<open>
  The cleanup cycle in the words of the specification: the outcome of deleting each candidate
  in turn, and the state after all of them.
\<close>

fun deletionOutcomes :: "'s StorageProvider \<Rightarrow> string list \<Rightarrow> 's \<Rightarrow> (error + bool) list" where
  "deletionOutcomes provider [] s = []"
| "deletionOutcomes provider (file # rest) s =
     fst (deleteFile provider file s) # deletionOutcomes provider rest (snd (deleteFile provider file s))"

definition afterDeletions :: "'s StorageProvider \<Rightarrow> string list \<Rightarrow> 's \<Rightarrow> 's" where
  "afterDeletions provider inactiveFiles s =
     foldl (\<lambda>s' file. snd (deleteFile provider file s')) s inactiveFiles"

definition actuallyDeleted :: "(error + bool) list \<Rightarrow> nat" where
  "actuallyDeleted outcomes = length (filter (\<lambda>r. r = Inr True) outcomes)"

text \<open>The mock of the unit test: \<^verbatim>\<open>getInactiveFiles\<close> resolves or rejects as told,
  \<^verbatim>\<open>deleteFile\<close> resolves to \<^verbatim>\<open>true\<close> except on the keys that reject; the state is the
  list of keys \<^verbatim>\<open>deleteFile\<close> was called with.\<close>

definition mockStorageProvider ::
  "error + string list \<Rightarrow> string set \<Rightarrow> string list StorageProvider" where
  "mockStorageProvider inactive rejecting =
     \<lparr>uploadFile = (\<lambda>b n m log. (Inl (Error ''not mocked''), log)),
      deleteFile = (\<lambda>key log. (if key \<in> rejecting then Inl (Error ''Delete error'') else Inr True,
                                log @ [key])),
      getInactiveFiles = (\<lambda>inactiveSince log. (inactive, log))\<rparr>"

section \<open>usageLimiter\<close>

text \<open>
  \<^verbatim>\<open>dailyUsageStore\<close> is a \<^verbatim>\<open>Map\<close> from \<^verbatim>\<open>ip:day\<close> to a usage record. Byte counts are
  JavaScript numbers; they are integers here (exact below \<open>2\<^sup>5\<^sup>3\<close>).
  \<^verbatim>\<open>getTodayKey()\<close> reads the clock: its value at the call is the argument \<open>today\<close>.
\<close>

record usage =
  upload :: int
  download :: int
  lastReset :: string

type_synonym dailyUsageStore = "string \<rightharpoonup> usage"

text \<open>
  \<^verbatim>\<open>parseInt(process.env.UPLOAD_LIMIT, 10) || DEFAULT_UPLOAD_LIMIT\<close>: the argument is what
  \<^verbatim>\<open>parseInt\<close> returned, \<open>None\<close> for \<^verbatim>\<open>NaN\<close>.
\<close>

definition DEFAULT_UPLOAD_LIMIT :: int where
  "DEFAULT_UPLOAD_LIMIT = 100 * 1024 * 1024"

definition DEFAULT_DOWNLOAD_LIMIT :: int where
  "DEFAULT_DOWNLOAD_LIMIT = 500 * 1024 * 1024"

definition UPLOAD_LIMIT :: "int option \<Rightarrow> int" where
  "UPLOAD_LIMIT env =
     (case env of None \<Rightarrow> DEFAULT_UPLOAD_LIMIT | Some n \<Rightarrow> if n = 0 then DEFAULT_UPLOAD_LIMIT else n)"

definition DOWNLOAD_LIMIT :: "int option \<Rightarrow> int" where
  "DOWNLOAD_LIMIT env =
     (case env of None \<Rightarrow> DEFAULT_DOWNLOAD_LIMIT
      | Some n \<Rightarrow> if n = 0 then DEFAULT_DOWNLOAD_LIMIT else n)"

definition getUsageKey :: "string \<Rightarrow> string \<Rightarrow> string" where
  "getUsageKey addr today = addr @ '':'' @ today"

definition getUsageRecord :: "string \<Rightarrow> string \<Rightarrow> dailyUsageStore \<Rightarrow> usage \<times> dailyUsageStore" where
  "getUsageRecord addr today store =
     (let key = getUsageKey addr today
      in case store key of
           None \<Rightarrow> (let fresh = \<lparr>upload = 0, download = 0, lastReset = today\<rparr>
                    in (fresh, store(key \<mapsto> fresh)))
         | Some r \<Rightarrow> (r, store))"

definition cleanupOldRecords :: "string \<Rightarrow> dailyUsageStore \<Rightarrow> dailyUsageStore" where
  "cleanupOldRecords today store =
     (\<lambda>key. case store key of
               None \<Rightarrow> None
             | Some r \<Rightarrow> if lastReset r \<noteq> today then None else Some r)"

text \<open>
  The part of the request the limiter reads (fields prefixed: \<^verbatim>\<open>req.ip\<close>,
  \<^verbatim>\<open>req.connection.remoteAddress\<close>, \<^verbatim>\<open>req.file\<close> and its \<^verbatim>\<open>size\<close>). \<^verbatim>\<open>req.file\<close> is set by multer, which runs
  after \<^verbatim>\<open>uploadLimiter\<close>; \<open>req_file\<close> is its value when the response is sent.
\<close>

record multerFile =
  file_buffer :: buffer
  file_originalname :: string
  file_mimetype :: string
  file_size :: nat

record request =
  req_ip :: "string option"
  req_remoteAddress :: "string option"
  req_file :: "multerFile option"

text \<open>\<^verbatim>\<open>req.ip || req.connection.remoteAddress || 'unknown'\<close>: an empty string is falsy.\<close>

definition clientIp :: "request \<Rightarrow> string" where
  "clientIp req =
     (case req_ip req of
        Some a \<Rightarrow> if a \<noteq> [] then a
                  else (case req_remoteAddress req of
                          Some b \<Rightarrow> if b \<noteq> [] then b else ''unknown''
                        | None \<Rightarrow> ''unknown'')
      | None \<Rightarrow> (case req_remoteAddress req of
                   Some b \<Rightarrow> if b \<noteq> [] then b else ''unknown''
                 | None \<Rightarrow> ''unknown''))"

datatype admission = Status429 | Next

text \<open>
  The admission checks. \<open>usage\<close> in the source is a reference to the record in the store; the
  wrappers installed on \<^verbatim>\<open>res\<close> update that record later, so the model keeps its key.
\<close>

definition uploadLimiter ::
  "int option \<Rightarrow> string \<Rightarrow> request \<Rightarrow> dailyUsageStore \<Rightarrow> admission \<times> dailyUsageStore" where
  "uploadLimiter env today req store =
     (case getUsageRecord (clientIp req) today store of
        (usage, store') \<Rightarrow>
          if upload usage \<ge> UPLOAD_LIMIT env then (Status429, store') else (Next, store'))"

definition downloadLimiter ::
  "int option \<Rightarrow> string \<Rightarrow> request \<Rightarrow> dailyUsageStore \<Rightarrow> admission \<times> dailyUsageStore" where
  "downloadLimiter env today req store =
     (case getUsageRecord (clientIp req) today store of
        (usage, store') \<Rightarrow>
          if download usage \<ge> DOWNLOAD_LIMIT env then (Status429, store') else (Next, store'))"

definition trackDownload :: "string \<Rightarrow> string \<Rightarrow> int \<Rightarrow> dailyUsageStore \<Rightarrow> dailyUsageStore" where
  "trackDownload addr today n store =
     (case getUsageRecord addr today store of
        (usage, store') \<Rightarrow> store'(getUsageKey addr today \<mapsto> usage\<lparr>download := download usage + n\<rparr>))"

definition getUsage :: "string \<Rightarrow> string \<Rightarrow> dailyUsageStore \<Rightarrow> (int \<times> int) \<times> dailyUsageStore" where
  "getUsage addr today store =
     (case getUsageRecord addr today store of
        (usage, store') \<Rightarrow> ((upload usage, download usage), store'))"

text \<open>\<^verbatim>\<open>usage.upload += uploadSize\<close> on the record the limiter captured, found by its key.\<close>

definition addUpload :: "string \<Rightarrow> int \<Rightarrow> dailyUsageStore \<Rightarrow> dailyUsageStore" where
  "addUpload key n store =
     (case store key of
        None \<Rightarrow> store
      | Some r \<Rightarrow> store(key \<mapsto> r\<lparr>upload := upload r + n\<rparr>))"

definition uploadSize :: "request \<Rightarrow> int" where
  "uploadSize req = (case req_file req of None \<Rightarrow> 0 | Some f \<Rightarrow> int (file_size f))"

text \<open>
  The two wrappers \<^verbatim>\<open>uploadLimiter\<close> installs on \<^verbatim>\<open>res\<close>. Each adds the upload size and
  calls the method it replaced with \<^verbatim>\<open>this\<close> bound to \<^verbatim>\<open>res\<close>. What the replaced
  \<^verbatim>\<open>json\<close> does is the framework's, not this repository's: Express's \<^verbatim>\<open>res.json\<close>
  serialises the body and ends with \<^verbatim>\<open>return this.send(body)\<close>, and \<^verbatim>\<open>this.send\<close> is by
  then the wrapper; the mock of the unit test has an independent \<^verbatim>\<open>jest.fn()\<close> for each.
  \<open>jsonCallsSend\<close> says which of the two the response object is.
\<close>

definition res_send :: "string \<Rightarrow> request \<Rightarrow> dailyUsageStore \<Rightarrow> dailyUsageStore" where
  "res_send key req store = addUpload key (uploadSize req) store"

definition res_json :: "bool \<Rightarrow> string \<Rightarrow> request \<Rightarrow> dailyUsageStore \<Rightarrow> dailyUsageStore" where
  "res_json jsonCallsSend key req store =
     (let store' = addUpload key (uploadSize req) store
      in if jsonCallsSend then res_send key req store' else store')"

text \<open>
  \<^verbatim>\<open>router.post('/files', uploadLimiter, upload.single('file'), handler)\<close>. The result is
  the status code; the body is not modelled. \<open>parsed\<close> is the file multer found in the
  request, if any.
\<close>

definition postFiles ::
  "bool \<Rightarrow> int option \<Rightarrow> string \<Rightarrow> 's StorageProvider \<Rightarrow> request \<Rightarrow> multerFile option
     \<Rightarrow> 's \<times> dailyUsageStore \<Rightarrow> nat \<times> 's \<times> dailyUsageStore" where
  "postFiles jsonCallsSend env today storageProvider req parsed world =
     (case world of (s, store) \<Rightarrow>
      (case uploadLimiter env today req store of
         (Status429, store') \<Rightarrow> (429, s, store')
       | (Next, store') \<Rightarrow>
          (let key = getUsageKey (clientIp req) today;
               req' = req\<lparr>req_file := parsed\<rparr>
           in case req_file req' of
                None \<Rightarrow> (400, s, res_json jsonCallsSend key req' store')
              | Some f \<Rightarrow>
                 (case uploadFile storageProvider (file_buffer f) (file_originalname f) (file_mimetype f) s of
                    (Inr keys, s') \<Rightarrow> (201, s', res_json jsonCallsSend key req' store')
                  | (Inl e, s') \<Rightarrow> (500, s', res_json jsonCallsSend key req' store')))))"

section \<open>Definitions used in the statements\<close>

subsection \<open>What a completed upload leaves\<close>

text \<open>
  The metadata object \<^verbatim>\<open>uploadFile\<close> builds and the store after its three writes, for
  each provider.
\<close>

definition Local_record ::
  "string \<Rightarrow> string \<Rightarrow> int \<Rightarrow> buffer \<Rightarrow> string \<Rightarrow> string \<Rightarrow> metadata" where
  "Local_record pub priv now content name mime =
     \<lparr>publicKey = pub, privateKey = priv, originalName = name, mimeType = mime,
      createdAt = now, lastAccessed = None, fileSize = length content\<rparr>"

definition Local_stored ::
  "string \<Rightarrow> string \<Rightarrow> int \<Rightarrow> buffer \<Rightarrow> string \<Rightarrow> string \<Rightarrow> localfs \<Rightarrow> localfs" where
  "Local_stored pub priv now content name mime fs =
     \<lparr>filesFolder = AList.update pub content (filesFolder fs),
      metadataFolder =
        AList.update (Local_getMetadataPath priv)
          (Document (Local_record pub priv now content name mime))
          (AList.update (Local_getMetadataPath pub)
             (Document (Local_record pub priv now content name mime)) (metadataFolder fs))\<rparr>"

definition GCS_record ::
  "gcs \<Rightarrow> string \<Rightarrow> string \<Rightarrow> int \<Rightarrow> buffer \<Rightarrow> string \<Rightarrow> string \<Rightarrow> gmetadata" where
  "GCS_record this pub priv now content name mime =
     \<lparr>publicKey = pub, privateKey = priv, originalName = name, mimeType = mime,
      createdAt = now, lastAccessed = None, fileSize = length content,
      filePath = GCS_getFilePath this pub\<rparr>"

definition GCS_stored ::
  "gcs \<Rightarrow> string \<Rightarrow> string \<Rightarrow> int \<Rightarrow> buffer \<Rightarrow> string \<Rightarrow> string
     \<Rightarrow> (string \<times> gcontent) list \<Rightarrow> (string \<times> gcontent) list" where
  "GCS_stored this pub priv now content name mime objs =
     AList.update (GCS_getMetadataPath this priv)
       (Json (Document (GCS_record this pub priv now content name mime)))
       (AList.update (GCS_getMetadataPath this pub)
          (Json (Document (GCS_record this pub priv now content name mime)))
          (AList.update (GCS_getFilePath this pub) (Blob content) objs))"


subsection \<open>Stored objects and the dual-key filing of their records\<close>

text \<open>
  The records of the stored objects are the metadata objects found in the metadata
  documents. A document is filed consistently when its keys are keys as \<^verbatim>\<open>_generateKeys\<close>
  draws them and differ, the document is stored under the metadata path of one of its two
  keys, and the same document is stored under both paths; on the cloud provider the record
  also names the content path of its public key. A store is consistent when file names are
  not repeated and every metadata document that parses is filed consistently. Content blobs
  and documents that do not parse are left unconstrained.
\<close>

definition Local_records :: "localfs \<Rightarrow> metadata list" where
  "Local_records fs =
     concat (map (\<lambda>entry. case snd entry of Unparseable \<Rightarrow> [] | Document m \<Rightarrow> [m])
                 (metadataFolder fs))"

definition Local_filed :: "(string \<rightharpoonup> metadata document) \<Rightarrow> string \<times> metadata document \<Rightarrow> bool" where
  "Local_filed lookup entry =
     (case snd entry of
        Unparseable \<Rightarrow> True
      | Document m \<Rightarrow>
          hexKey (publicKey m) \<and> hexKey (privateKey m) \<and> publicKey m \<noteq> privateKey m \<and>
          (fst entry = Local_getMetadataPath (publicKey m) \<or>
           fst entry = Local_getMetadataPath (privateKey m)) \<and>
          lookup (Local_getMetadataPath (publicKey m)) = Some (Document m) \<and>
          lookup (Local_getMetadataPath (privateKey m)) = Some (Document m))"

definition Local_consistent :: "localfs \<Rightarrow> bool" where
  "Local_consistent fs =
     (distinct (map fst (metadataFolder fs)) \<and>
      list_all (Local_filed (map_of (metadataFolder fs))) (metadataFolder fs))"

definition GCS_records :: "gcs \<Rightarrow> gmetadata list" where
  "GCS_records this =
     (case bucket this of
        None \<Rightarrow> []
      | Some objs \<Rightarrow>
          concat (map (\<lambda>entry. case snd entry of
                                  Blob b \<Rightarrow> []
                                | Json Unparseable \<Rightarrow> []
                                | Json (Document m) \<Rightarrow> [m]) objs))"

definition GCS_filed :: "gcs \<Rightarrow> (string \<rightharpoonup> gcontent) \<Rightarrow> string \<times> gcontent \<Rightarrow> bool" where
  "GCS_filed this lookup entry =
     (case snd entry of
        Blob b \<Rightarrow> True
      | Json Unparseable \<Rightarrow> True
      | Json (Document m) \<Rightarrow>
          hexKey (publicKey m) \<and> hexKey (privateKey m) \<and> publicKey m \<noteq> privateKey m \<and>
          filePath m = GCS_getFilePath this (publicKey m) \<and>
          (fst entry = GCS_getMetadataPath this (publicKey m) \<or>
           fst entry = GCS_getMetadataPath this (privateKey m)) \<and>
          lookup (GCS_getMetadataPath this (publicKey m)) = Some (Json (Document m)) \<and>
          lookup (GCS_getMetadataPath this (privateKey m)) = Some (Json (Document m)))"

definition GCS_consistent :: "gcs \<Rightarrow> bool" where
  "GCS_consistent this =
     (case bucket this of
        None \<Rightarrow> False
      | Some objs \<Rightarrow> distinct (map fst objs) \<and> list_all (GCS_filed this (map_of objs)) objs)"


subsection \<open>Reading a counter\<close>

text \<open>The uploaded bytes of an origin's day as \<^verbatim>\<open>getUsage\<close> reports them.\<close>

definition uploadedToday :: "string \<Rightarrow> string \<Rightarrow> dailyUsageStore \<Rightarrow> int" where
  "uploadedToday addr today store = fst (fst (getUsage addr today store))"


subsection \<open>Sample inputs\<close>

text \<open>
  Two key pairs of the generator's format, an initialized provider with an empty bucket and
  the default prefixes, and the stores after the call \<^verbatim>\<open>uploadFile\<close> of a three-byte file:
  completed, and interrupted by a refused write of the private-key metadata.
\<close>

definition pubA :: string where
  "pubA = ''0ac487a7de65ce33d26532221a4385410ddefe599a0997a11d1bc717901ea2bf''"

definition privA :: string where
  "privA = ''dee4c5fb2b521a50b7ad047b84f2970ab82e456915a8e5a8eef9c82cd188f89c''"

definition pubB :: string where
  "pubB = ''7f3c9a1e5b2d4f60819a7c3e5d1b2f4a6c8e0a2b4d6f8091a3c5e7f9b1d3f5a7''"

definition privB :: string where
  "privB = ''1b9d7f5e3c1a08f6e4d2c0b9a7f5e3d1c9b7a5f3e1d9c7b5a3f1e9d7c5b3a1f0''"

definition emptyGCS :: gcs where
  "emptyGCS = \<lparr>bucket = Some [], filePrefixConfig = None,
               metadataPrefix = initialMetadataPrefix None\<rparr>"

definition uploadedLocal :: localfs where
  "uploadedLocal =
     snd (Local_uploadFile {} (pubA, privA) 1000 [1, 2, 3] ''a.txt'' ''text/plain'' emptyLocal)"

definition uploadedGCS :: gcs where
  "uploadedGCS =
     snd (GCS_uploadFile {} (pubA, privA) 1000 [1, 2, 3] ''a.txt'' ''text/plain'' emptyGCS)"

definition interruptedLocal :: localfs where
  "interruptedLocal =
     snd (Local_uploadFile {(MetadataFolder, Local_getMetadataPath privA)} (pubA, privA) 1000
            [1, 2, 3] ''a.txt'' ''text/plain'' emptyLocal)"

definition interruptedGCS :: gcs where
  "interruptedGCS =
     snd (GCS_uploadFile {GCS_getMetadataPath emptyGCS privA} (pubA, privA) 1000
            [1, 2, 3] ''a.txt'' ''text/plain'' emptyGCS)"


text \<open>
  Two objects: the sample upload at time 1000, downloaded at time 6000, and a second upload
  at time 5000 that was never downloaded.
\<close>

definition twoLocal :: localfs where
  "twoLocal =
     snd (Local_downloadFile {} 6000 pubA
       (snd (Local_uploadFile {} (pubB, privB) 5000 [4, 5] ''b.txt'' ''text/plain'' uploadedLocal)))"

definition twoGCS :: gcs where
  "twoGCS =
     snd (GCS_downloadFile {} 6000 pubA
       (snd (GCS_uploadFile {} (pubB, privB) 5000 [4, 5] ''b.txt'' ''text/plain'' uploadedGCS)))"


text \<open>The request of the unit test, and a file of 1024 bytes as multer delivers it.\<close>

definition sampleFile :: multerFile where
  "sampleFile = \<lparr>file_buffer = replicate 1024 0, file_originalname = ''a.txt'',
                 file_mimetype = ''text/plain'', file_size = 1024\<rparr>"

definition sampleRequest :: request where
  "sampleRequest = \<lparr>req_ip = Some ''192.168.1.1'', req_remoteAddress = Some ''192.168.1.1'',
                    req_file = None\<rparr>"


section \<open>Closed forms of the storage operations\<close>

lemma tryUnlinkFile_eq:
  "tryUnlinkFile name fs = fs\<lparr>filesFolder := AList.delete name (filesFolder fs)\<rparr>"
proof (cases "map_of (filesFolder fs) name")
  case None
  then have "name \<notin> fst ` set (filesFolder fs)" by (simp add: map_of_eq_None_iff)
  with None show ?thesis by (simp add: tryUnlinkFile_def unlinkFile_def)
next
  case (Some b)
  then show ?thesis by (simp add: tryUnlinkFile_def unlinkFile_def)
qed

lemma tryUnlinkMetadata_eq:
  "tryUnlinkMetadata name fs = fs\<lparr>metadataFolder := AList.delete name (metadataFolder fs)\<rparr>"
proof (cases "map_of (metadataFolder fs) name")
  case None
  then have "name \<notin> fst ` set (metadataFolder fs)" by (simp add: map_of_eq_None_iff)
  with None show ?thesis by (simp add: tryUnlinkMetadata_def unlinkMetadata_def)
next
  case (Some t)
  then show ?thesis by (simp add: tryUnlinkMetadata_def unlinkMetadata_def)
qed

lemma tryDelete_eq: "tryDelete name objs = AList.delete name objs"
proof (cases "map_of objs name")
  case None
  then have "name \<notin> fst ` set objs" by (simp add: map_of_eq_None_iff)
  with None show ?thesis by (simp add: tryDelete_def bucket_delete_def)
next
  case (Some c)
  then show ?thesis by (simp add: tryDelete_def bucket_delete_def)
qed

lemma Local_uploadFile_eq:
  "Local_uploadFile unw (pub, priv) now content name mime fs =
     (if (FilesFolder, Local_getFilePath pub) \<in> unw then (Inl (Error ''EACCES''), fs)
      else if (MetadataFolder, Local_getMetadataPath pub) \<in> unw then
        (Inl (Error ''EACCES''), fs\<lparr>filesFolder := AList.update pub content (filesFolder fs)\<rparr>)
      else if (MetadataFolder, Local_getMetadataPath priv) \<in> unw then
        (Inl (Error ''EACCES''),
         \<lparr>filesFolder = AList.update pub content (filesFolder fs),
          metadataFolder = AList.update (Local_getMetadataPath pub)
             (Document (Local_record pub priv now content name mime)) (metadataFolder fs)\<rparr>)
      else (Inr (pub, priv), Local_stored pub priv now content name mime fs))"
  by (simp add: Local_uploadFile_def writeFile_def writeMetadata_def Local_getFilePath_def
        Local_record_def Local_stored_def Let_def)

lemma Local_uploadFile_Inr:
  assumes "Local_uploadFile unw (pub, priv) now content name mime fs = (Inr keys, fs')"
  shows "keys = (pub, priv) \<and> fs' = Local_stored pub priv now content name mime fs"
  using assms by (simp add: Local_uploadFile_eq split: if_splits)

lemma Local_deleteFile_eq:
  "Local_deleteFile key fs =
     (case map_of (metadataFolder fs) (Local_getMetadataPath key) of
        Some (Document m) \<Rightarrow>
          (True, \<lparr>filesFolder = AList.delete (publicKey m) (filesFolder fs),
                  metadataFolder = AList.delete (Local_getMetadataPath key)
                     (AList.delete (Local_getMetadataPath (publicKey m)) (metadataFolder fs))\<rparr>)
      | _ \<Rightarrow> (False, fs))"
  by (simp add: Local_deleteFile_def readMetadata_def JSON_parse_def tryUnlinkFile_eq
        tryUnlinkMetadata_eq Local_getFilePath_def Let_def
        split: option.splits document.splits)

lemma Local_downloadFile_eq:
  "Local_downloadFile unw now key fs =
     (case map_of (metadataFolder fs) (Local_getMetadataPath key) of
        None \<Rightarrow> (Inl (Error ''File not found''), fs)
      | Some Unparseable \<Rightarrow> (Inl (Error ''SyntaxError''), fs)
      | Some (Document m) \<Rightarrow>
         (case map_of (filesFolder fs) key of
            None \<Rightarrow> (Inl (Error ''ENOENT''), fs)
          | Some buf \<Rightarrow>
             if (MetadataFolder, Local_getMetadataPath key) \<in> unw then (Inl (Error ''EACCES''), fs)
             else if (MetadataFolder, Local_getMetadataPath (privateKey m)) \<in> unw then
               (Inl (Error ''EACCES''),
                fs\<lparr>metadataFolder := AList.update (Local_getMetadataPath key)
                      (Document (m\<lparr>lastAccessed := Some now\<rparr>)) (metadataFolder fs)\<rparr>)
             else
               (Inr (buf, mimeType m, originalName m),
                fs\<lparr>metadataFolder := AList.update (Local_getMetadataPath (privateKey m))
                      (Document (m\<lparr>lastAccessed := Some now\<rparr>))
                      (AList.update (Local_getMetadataPath key)
                         (Document (m\<lparr>lastAccessed := Some now\<rparr>)) (metadataFolder fs))\<rparr>)))"
  by (simp add: Local_downloadFile_def readMetadata_def readFile_def JSON_parse_def
        writeMetadata_def Local_getFilePath_def Let_def
        split: option.splits document.splits)

lemma GCS_getMetadataPath_bucket [simp]:
  "GCS_getMetadataPath (this\<lparr>bucket := b\<rparr>) key = GCS_getMetadataPath this key"
  by (simp add: GCS_getMetadataPath_def)

lemma GCS_getFilePath_bucket [simp]:
  "GCS_getFilePath (this\<lparr>bucket := b\<rparr>) key = GCS_getFilePath this key"
  by (simp add: GCS_getFilePath_def)

lemma GCS_record_bucket [simp]:
  "GCS_record (this\<lparr>bucket := b\<rparr>) = GCS_record this"
  by (simp add: GCS_record_def fun_eq_iff)

lemma GCS_getFilePath_nonempty: "GCS_getFilePath this key \<noteq> []"
  by (simp add: GCS_getFilePath_def Let_def split: option.splits)

lemma GCS_uploadFile_eq:
  "bucket this = Some objs \<Longrightarrow>
   GCS_uploadFile unw (pub, priv) now content name mime this =
     (if GCS_getFilePath this pub \<in> unw then (Inl (Error ''save failed''), this)
      else if GCS_getMetadataPath this pub \<in> unw then
        (Inl (Error ''save failed''),
         this\<lparr>bucket := Some (AList.update (GCS_getFilePath this pub) (Blob content) objs)\<rparr>)
      else if GCS_getMetadataPath this priv \<in> unw then
        (Inl (Error ''save failed''),
         this\<lparr>bucket := Some (AList.update (GCS_getMetadataPath this pub)
            (Json (Document (GCS_record this pub priv now content name mime)))
            (AList.update (GCS_getFilePath this pub) (Blob content) objs))\<rparr>)
      else (Inr (pub, priv),
            this\<lparr>bucket := Some (GCS_stored this pub priv now content name mime objs)\<rparr>))"
  by (simp add: GCS_uploadFile_def bucket_save_def GCS_record_def GCS_stored_def Let_def)

lemma GCS_uploadFile_uninitialized:
  "bucket this = None \<Longrightarrow>
   GCS_uploadFile unw keys now content name mime this =
     (Inl (Error ''Storage provider not initialized''), this)"
  by (simp add: GCS_uploadFile_def)

lemma GCS_uploadFile_Inr:
  assumes "GCS_uploadFile unw (pub, priv) now content name mime this = (Inr keys, this')"
  shows "\<exists>objs. bucket this = Some objs \<and> keys = (pub, priv) \<and>
           this' = this\<lparr>bucket := Some (GCS_stored this pub priv now content name mime objs)\<rparr>"
proof (cases "bucket this")
  case None
  with assms show ?thesis by (simp add: GCS_uploadFile_uninitialized)
next
  case (Some objs)
  with assms show ?thesis by (simp add: GCS_uploadFile_eq split: if_splits)
qed

lemma GCS_deleteFile_eq:
  "bucket this = Some objs \<Longrightarrow>
   GCS_deleteFile key this =
     (case map_of objs (GCS_getMetadataPath this key) of
        Some (Json (Document m)) \<Rightarrow>
          (Inr True,
           this\<lparr>bucket := Some
             (AList.delete (GCS_getMetadataPath this key)
               (AList.delete (GCS_getMetadataPath this (publicKey m))
                 (AList.delete (if filePath m \<noteq> [] then filePath m
                                else GCS_getFilePath this (publicKey m)) objs)))\<rparr>)
      | _ \<Rightarrow> (Inr False, this))"
  by (simp add: GCS_deleteFile_def bucket_exists_def bucket_download_def GCS_parse_def
        JSON_parse_def tryDelete_eq Let_def
        split: option.splits gcontent.splits document.splits)

lemma GCS_downloadFile_eq:
  "bucket this = Some objs \<Longrightarrow>
   GCS_downloadFile unw now key this =
     (case map_of objs (GCS_getMetadataPath this key) of
        None \<Rightarrow> (Inl (Error ''File not found''), this)
      | Some (Blob b) \<Rightarrow> (Inl (Error ''SyntaxError''), this)
      | Some (Json Unparseable) \<Rightarrow> (Inl (Error ''SyntaxError''), this)
      | Some (Json (Document m)) \<Rightarrow>
         (case map_of objs (if filePath m \<noteq> [] then filePath m else GCS_getFilePath this key) of
            None \<Rightarrow> (Inl (Error ''No such object''), this)
          | Some fileBuffer \<Rightarrow>
             if GCS_getMetadataPath this key \<in> unw then (Inl (Error ''save failed''), this)
             else if GCS_getMetadataPath this (privateKey m) \<in> unw then
               (Inl (Error ''save failed''),
                this\<lparr>bucket := Some (AList.update (GCS_getMetadataPath this key)
                      (Json (Document (m\<lparr>lastAccessed := Some now\<rparr>))) objs)\<rparr>)
             else
               (Inr (fileBuffer, mimeType m, originalName m),
                this\<lparr>bucket := Some (AList.update (GCS_getMetadataPath this (privateKey m))
                      (Json (Document (m\<lparr>lastAccessed := Some now\<rparr>)))
                      (AList.update (GCS_getMetadataPath this key)
                         (Json (Document (m\<lparr>lastAccessed := Some now\<rparr>))) objs))\<rparr>)))"
  by (simp add: GCS_downloadFile_def bucket_exists_def bucket_download_def GCS_parse_def
        JSON_parse_def bucket_save_def Let_def
        split: option.splits gcontent.splits document.splits)

lemma hexKey_last: "hexKey k \<Longrightarrow> k \<noteq> [] \<and> last k \<noteq> CHR ''n''"
proof -
  assume h: "hexKey k"
  then have ne: "k \<noteq> []" by (auto simp: hexKey_def)
  then have "last k \<in> set k" by simp
  with h have "last k \<in> set ''0123456789abcdef''"
    by (auto simp: hexKey_def list_all_iff)
  then have "last k \<noteq> CHR ''n''" by auto
  with ne show ?thesis by simp
qed

lemma hexKey_not_json: "hexKey k \<Longrightarrow> x @ k \<noteq> y @ z @ ''.json''"
proof
  assume h: "hexKey k" and eq: "x @ k = y @ z @ ''.json''"
  from h have "k \<noteq> []" "last k \<noteq> CHR ''n''" using hexKey_last by auto
  then have "last (x @ k) \<noteq> CHR ''n''" by simp
  moreover have "last (y @ z @ ''.json'') = CHR ''n''" by simp
  ultimately show False using eq by simp
qed

lemma GCS_getFilePath_not_metadata:
  "hexKey k \<Longrightarrow> GCS_getFilePath this k \<noteq> GCS_getMetadataPath this k'"
  using hexKey_not_json [of k _ "metadataPrefix this" k']
  by (simp add: GCS_getFilePath_def GCS_getMetadataPath_def Let_def)

section \<open>The inactive-file scan of the local provider\<close>

lemma hexKey_no_dot: "hexKey k \<Longrightarrow> CHR ''.'' \<notin> set k"
proof
  assume h: "hexKey k" and d: "CHR ''.'' \<in> set k"
  from h have "\<forall>c \<in> set k. c \<in> set ''0123456789abcdef''"
    by (simp add: hexKey_def list_all_iff)
  with d have "CHR ''.'' \<in> set ''0123456789abcdef''" by blast
  then show False by simp
qed

lemma startsWith_Cons:
  "startsWith (c # cs) (p # ps) = (c = p \<and> startsWith cs ps)"
  by (simp add: startsWith_def)

lemma replace_json_suffix:
  "CHR ''.'' \<notin> set k \<Longrightarrow> replace (k @ ''.json'') ''.json'' [] = k"
proof (induction k)
  case Nil
  show ?case by (simp add: startsWith_def)
next
  case (Cons c cs)
  then have "c \<noteq> CHR ''.''" by auto
  then have "\<not> startsWith (c # cs @ ''.json'') ''.json''"
    by (simp add: startsWith_Cons)
  with Cons show ?case by simp
qed

lemma endsWith_json: "endsWith (k @ ''.json'') ''.json''"
  by (simp add: endsWith_def)

lemma Local_scan_concat:
  "Local_scan c fs names acc = acc @ concat (map (Local_inspect c fs) names)"
  by (induction names arbitrary: acc) simp_all

lemma Local_getInactiveFiles_concat:
  "Local_getInactiveFiles c fs =
     concat (map (Local_inspect c fs) (map fst (metadataFolder fs)))"
  by (simp add: Local_getInactiveFiles_def Local_scan_concat)

lemma Local_consistentD:
  assumes "Local_consistent fs" and "(name, Document m) \<in> set (metadataFolder fs)"
  shows "hexKey (publicKey m)" "hexKey (privateKey m)" "publicKey m \<noteq> privateKey m"
    "name = Local_getMetadataPath (publicKey m) \<or> name = Local_getMetadataPath (privateKey m)"
    "map_of (metadataFolder fs) (Local_getMetadataPath (publicKey m)) = Some (Document m)"
    "map_of (metadataFolder fs) (Local_getMetadataPath (privateKey m)) = Some (Document m)"
proof -
  from assms have "Local_filed (map_of (metadataFolder fs)) (name, Document m)"
    by (auto simp: Local_consistent_def list_all_iff)
  then show "hexKey (publicKey m)" "hexKey (privateKey m)" "publicKey m \<noteq> privateKey m"
    "name = Local_getMetadataPath (publicKey m) \<or> name = Local_getMetadataPath (privateKey m)"
    "map_of (metadataFolder fs) (Local_getMetadataPath (publicKey m)) = Some (Document m)"
    "map_of (metadataFolder fs) (Local_getMetadataPath (privateKey m)) = Some (Document m)"
    by (simp_all add: Local_filed_def)
qed

lemma Local_inspect_Document:
  assumes c: "Local_consistent fs" and e: "(name, Document m) \<in> set (metadataFolder fs)"
  shows "Local_inspect cutoff fs name =
           (if name = Local_getMetadataPath (privateKey m) \<and> referenceDate m < cutoff
            then [privateKey m] else [])"
proof -
  from c have d: "distinct (map fst (metadataFolder fs))" by (simp add: Local_consistent_def)
  with e have r: "map_of (metadataFolder fs) name = Some (Document m)" by simp
  note D = Local_consistentD [OF c e]
  from D(4) show ?thesis
  proof
    assume n: "name = Local_getMetadataPath (publicKey m)"
    then have "replace name ''.json'' [] = publicKey m"
      using hexKey_no_dot [OF D(1)] by (simp add: Local_getMetadataPath_def replace_json_suffix)
    moreover have "name \<noteq> Local_getMetadataPath (privateKey m)"
      using n D(3) by (simp add: Local_getMetadataPath_def)
    ultimately show ?thesis
      using r D(3) by (simp add: Local_inspect_def readMetadata_def JSON_parse_def Let_def)
  next
    assume n: "name = Local_getMetadataPath (privateKey m)"
    then have "replace name ''.json'' [] = privateKey m"
      using hexKey_no_dot [OF D(2)] by (simp add: Local_getMetadataPath_def replace_json_suffix)
    moreover have "endsWith name ''.json''"
      using n by (simp add: Local_getMetadataPath_def endsWith_json)
    ultimately show ?thesis
      using r n by (simp add: Local_inspect_def readMetadata_def JSON_parse_def Let_def)
  qed
qed

lemma Local_inspect_Unparseable:
  assumes "distinct (map fst (metadataFolder fs))"
    and "(name, Unparseable) \<in> set (metadataFolder fs)"
  shows "Local_inspect cutoff fs name = []"
proof -
  from assms have "map_of (metadataFolder fs) name = Some Unparseable" by simp
  then show ?thesis by (simp add: Local_inspect_def readMetadata_def JSON_parse_def)
qed

lemma Local_records_iff:
  "m \<in> set (Local_records fs) \<longleftrightarrow> (\<exists>name. (name, Document m) \<in> set (metadataFolder fs))"
  by (force simp: Local_records_def split: document.splits)

lemma set_Local_getInactiveFiles:
  assumes c: "Local_consistent fs"
  shows "set (Local_getInactiveFiles cutoff fs) =
           privateKey ` {m \<in> set (Local_records fs). referenceDate m < cutoff}"
proof (intro set_eqI iffI)
  fix k
  assume "k \<in> set (Local_getInactiveFiles cutoff fs)"
  then obtain name doc where e: "(name, doc) \<in> set (metadataFolder fs)"
    and k: "k \<in> set (Local_inspect cutoff fs name)"
    by (auto simp: Local_getInactiveFiles_concat)
  from c have d: "distinct (map fst (metadataFolder fs))" by (simp add: Local_consistent_def)
  show "k \<in> privateKey ` {m \<in> set (Local_records fs). referenceDate m < cutoff}"
  proof (cases doc)
    case Unparseable
    with e k d show ?thesis by (simp add: Local_inspect_Unparseable)
  next
    case (Document m)
    with e have e': "(name, Document m) \<in> set (metadataFolder fs)" by simp
    from k have "k = privateKey m" "referenceDate m < cutoff"
      by (simp_all add: Local_inspect_Document [OF c e'] split: if_splits)
    moreover from e' have "m \<in> set (Local_records fs)" by (auto simp: Local_records_iff)
    ultimately show ?thesis by blast
  qed
next
  fix k
  assume "k \<in> privateKey ` {m \<in> set (Local_records fs). referenceDate m < cutoff}"
  then obtain m where m: "m \<in> set (Local_records fs)" and r: "referenceDate m < cutoff"
    and k: "k = privateKey m" by blast
  from m obtain name where e: "(name, Document m) \<in> set (metadataFolder fs)"
    by (auto simp: Local_records_iff)
  from Local_consistentD(6) [OF c e]
  have e': "(Local_getMetadataPath (privateKey m), Document m) \<in> set (metadataFolder fs)"
    by (rule map_of_SomeD)
  have kin: "k \<in> set (Local_inspect cutoff fs (Local_getMetadataPath (privateKey m)))"
    using r k by (simp add: Local_inspect_Document [OF c e'])
  from e' kin show "k \<in> set (Local_getInactiveFiles cutoff fs)"
    by (auto simp: Local_getInactiveFiles_concat
             intro!: bexI [of _ "(Local_getMetadataPath (privateKey m), Document m)"])
qed

lemma Local_inspect_shape:
  "Local_inspect cutoff fs name = [] \<or>
   Local_inspect cutoff fs name = [replace name ''.json'' []]"
  by (simp add: Local_inspect_def Let_def split: sum.splits)

lemma concat_map_singletons:
  "(\<And>n. n \<in> set names \<Longrightarrow> f n = [] \<or> f n = [g n]) \<Longrightarrow>
     concat (map f names) = map g (filter (\<lambda>n. f n \<noteq> []) names)"
proof (induction names)
  case Nil
  show ?case by simp
next
  case (Cons n names)
  from Cons.prems [of n] have "f n = [] \<or> f n = [g n]" by simp
  moreover have "concat (map f names) = map g (filter (\<lambda>n. f n \<noteq> []) names)"
    using Cons by simp
  ultimately show ?case by auto
qed

lemma Local_inspect_nonempty:
  assumes c: "Local_consistent fs" and n: "name \<in> fst ` set (metadataFolder fs)"
    and ne: "Local_inspect cutoff fs name \<noteq> []"
  shows "name = replace name ''.json'' [] @ ''.json''"
proof -
  from n obtain doc where e: "(name, doc) \<in> set (metadataFolder fs)" by auto
  from c have d: "distinct (map fst (metadataFolder fs))" by (simp add: Local_consistent_def)
  show ?thesis
  proof (cases doc)
    case Unparseable
    with e d ne show ?thesis by (simp add: Local_inspect_Unparseable)
  next
    case (Document m)
    with e have e': "(name, Document m) \<in> set (metadataFolder fs)" by simp
    from ne have nm: "name = Local_getMetadataPath (privateKey m)"
      by (simp add: Local_inspect_Document [OF c e'] split: if_splits)
    then have "replace name ''.json'' [] = privateKey m"
      using hexKey_no_dot [OF Local_consistentD(2) [OF c e']]
      by (simp add: Local_getMetadataPath_def replace_json_suffix)
    with nm show ?thesis by (simp add: Local_getMetadataPath_def)
  qed
qed

lemma distinct_Local_getInactiveFiles:
  assumes c: "Local_consistent fs"
  shows "distinct (Local_getInactiveFiles cutoff fs)"
proof -
  let ?names = "map fst (metadataFolder fs)"
  let ?f = "Local_inspect cutoff fs"
  let ?g = "\<lambda>n. replace n ''.json'' []"
  have eq: "Local_getInactiveFiles cutoff fs = map ?g (filter (\<lambda>n. ?f n \<noteq> []) ?names)"
    unfolding Local_getInactiveFiles_concat
    by (rule concat_map_singletons) (rule Local_inspect_shape)
  from c have d: "distinct ?names" by (simp add: Local_consistent_def)
  have inj: "inj_on ?g (set (filter (\<lambda>n. ?f n \<noteq> []) ?names))"
  proof (rule inj_onI)
    fix a b
    assume a: "a \<in> set (filter (\<lambda>n. ?f n \<noteq> []) ?names)"
      and b: "b \<in> set (filter (\<lambda>n. ?f n \<noteq> []) ?names)"
      and g: "?g a = ?g b"
    from a have "a = ?g a @ ''.json''"
      using Local_inspect_nonempty [OF c, of a cutoff] by auto
    moreover from b have "b = ?g b @ ''.json''"
      using Local_inspect_nonempty [OF c, of b cutoff] by auto
    ultimately show "a = b" using g by simp
  qed
  from d inj show ?thesis by (simp add: eq distinct_map)
qed

lemma Local_privateKey_inj:
  assumes c: "Local_consistent fs"
  shows "inj_on privateKey (set (Local_records fs))"
proof (rule inj_onI)
  fix m m'
  assume m: "m \<in> set (Local_records fs)" and m': "m' \<in> set (Local_records fs)"
    and k: "privateKey m = privateKey m'"
  from m obtain n where e: "(n, Document m) \<in> set (metadataFolder fs)"
    by (auto simp: Local_records_iff)
  from m' obtain n' where e': "(n', Document m') \<in> set (metadataFolder fs)"
    by (auto simp: Local_records_iff)
  have "map_of (metadataFolder fs) (Local_getMetadataPath (privateKey m)) = Some (Document m)"
    by (rule Local_consistentD(6) [OF c e])
  moreover
  have "map_of (metadataFolder fs) (Local_getMetadataPath (privateKey m')) = Some (Document m')"
    by (rule Local_consistentD(6) [OF c e'])
  ultimately have "Some (Document m) = Some (Document m')"
    by (simp only: k)
  then show "m = m'" by (simp only: option.inject document.inject)
qed

lemma Local_publicKey_not_listed:
  assumes c: "Local_consistent fs" and m: "m \<in> set (Local_records fs)"
  shows "publicKey m \<notin> set (Local_getInactiveFiles cutoff fs)"
proof
  assume "publicKey m \<in> set (Local_getInactiveFiles cutoff fs)"
  then obtain m' where m': "m' \<in> set (Local_records fs)" and k: "publicKey m = privateKey m'"
    by (auto simp: set_Local_getInactiveFiles [OF c])
  from m obtain n where e: "(n, Document m) \<in> set (metadataFolder fs)"
    by (auto simp: Local_records_iff)
  from m' obtain n' where e': "(n', Document m') \<in> set (metadataFolder fs)"
    by (auto simp: Local_records_iff)
  have "map_of (metadataFolder fs) (Local_getMetadataPath (publicKey m)) = Some (Document m)"
    by (rule Local_consistentD(5) [OF c e])
  moreover
  have "map_of (metadataFolder fs) (Local_getMetadataPath (privateKey m')) = Some (Document m')"
    by (rule Local_consistentD(6) [OF c e'])
  ultimately have "Some (Document m) = Some (Document m')"
    by (simp only: k)
  then have "m = m'" by (simp only: option.inject document.inject)
  with k have "publicKey m = privateKey m" by (simp only:)
  with Local_consistentD(3) [OF c e] show False by blast
qed

section \<open>The empty store is consistent and uploads keep the local store consistent\<close>

lemma Local_consistent_alt:
  "Local_consistent fs \<longleftrightarrow>
     distinct (map fst (metadataFolder fs)) \<and>
     (\<forall>n d. map_of (metadataFolder fs) n = Some d \<longrightarrow>
            Local_filed (map_of (metadataFolder fs)) (n, d))"
proof (cases "distinct (map fst (metadataFolder fs))")
  case False
  then show ?thesis by (simp add: Local_consistent_def)
next
  case True
  then have "\<And>n d. (map_of (metadataFolder fs) n = Some d) = ((n, d) \<in> set (metadataFolder fs))"
    by simp
  with True show ?thesis
    by (auto simp: Local_consistent_def list_all_iff)
qed

lemma Local_consistent_empty: "Local_consistent emptyLocal"
  by (simp add: Local_consistent_def emptyLocal_def)

lemma Local_consistent_stored:
  assumes c: "Local_consistent fs"
    and hex: "hexKey pub" "hexKey priv" and ne: "pub \<noteq> priv"
    and fresh: "map_of (metadataFolder fs) (Local_getMetadataPath pub) = None"
               "map_of (metadataFolder fs) (Local_getMetadataPath priv) = None"
  shows "Local_consistent (Local_stored pub priv now content name mime fs)"
proof -
  let ?M = "map_of (metadataFolder fs)"
  let ?D = "Document (Local_record pub priv now content name mime)"
  let ?fs' = "Local_stored pub priv now content name mime fs"
  let ?M' = "map_of (metadataFolder ?fs')"
  have M': "?M' = ?M(Local_getMetadataPath pub \<mapsto> ?D, Local_getMetadataPath priv \<mapsto> ?D)"
    by (simp add: Local_stored_def AList.update_conv')
  have pp: "Local_getMetadataPath pub \<noteq> Local_getMetadataPath priv"
    using ne by (simp add: Local_getMetadataPath_def)
  from c have d: "distinct (map fst (metadataFolder fs))"
    and old: "\<And>n d. ?M n = Some d \<Longrightarrow> Local_filed ?M (n, d)"
    by (simp_all add: Local_consistent_alt)
  have d': "distinct (map fst (metadataFolder ?fs'))"
    using d by (simp add: Local_stored_def AList.distinct_update)
  have new: "Local_filed ?M' (n, dd)" if h: "?M' n = Some dd" for n dd
  proof (cases "n = Local_getMetadataPath priv \<or> n = Local_getMetadataPath pub")
    case True
    with h pp have "dd = ?D" by (auto simp: M' split: if_splits)
    with True pp hex ne show ?thesis
      by (auto simp: Local_filed_def M' Local_record_def)
  next
    case False
    with h have o: "?M n = Some dd" by (simp add: M')
    show ?thesis
    proof (cases dd)
      case Unparseable
      then show ?thesis by (simp add: Local_filed_def)
    next
      case (Document m)
      with old [OF o] have f: "Local_filed ?M (n, Document m)" by simp
      then have a: "?M (Local_getMetadataPath (publicKey m)) = Some (Document m)"
        and b: "?M (Local_getMetadataPath (privateKey m)) = Some (Document m)"
        by (simp_all add: Local_filed_def)
      from a fresh have "Local_getMetadataPath (publicKey m) \<noteq> Local_getMetadataPath pub"
        "Local_getMetadataPath (publicKey m) \<noteq> Local_getMetadataPath priv" by auto
      moreover from b fresh have "Local_getMetadataPath (privateKey m) \<noteq> Local_getMetadataPath pub"
        "Local_getMetadataPath (privateKey m) \<noteq> Local_getMetadataPath priv" by auto
      ultimately show ?thesis
        using f Document by (simp add: Local_filed_def M')
    qed
  qed
  from d' new show ?thesis by (simp add: Local_consistent_alt)
qed

section \<open>The sample keys and uploads\<close>

lemma hexKey_pubA: "hexKey pubA"
  by (simp add: hexKey_def pubA_def)

lemma hexKey_privA: "hexKey privA"
  by (simp add: hexKey_def privA_def)

lemma pubA_neq_privA: "pubA \<noteq> privA"
  by (simp add: pubA_def privA_def)

lemma Local_upload_sample:
  "Local_uploadFile {} (pubA, privA) 1000 [1, 2, 3] ''a.txt'' ''text/plain'' emptyLocal =
     (Inr (pubA, privA), uploadedLocal)"
  by (simp add: uploadedLocal_def Local_uploadFile_eq)

lemma GCS_upload_sample:
  "GCS_uploadFile {} (pubA, privA) 1000 [1, 2, 3] ''a.txt'' ''text/plain'' emptyGCS =
     (Inr (pubA, privA), uploadedGCS)"
  by (simp add: uploadedGCS_def GCS_uploadFile_eq [of _ "[]"] emptyGCS_def)

section \<open>Lookups in the store a completed upload leaves\<close>

lemma Local_stored_lookup:
  "map_of (metadataFolder (Local_stored pub priv now content name mime fs))
       (Local_getMetadataPath pub) = Some (Document (Local_record pub priv now content name mime))"
  "map_of (metadataFolder (Local_stored pub priv now content name mime fs))
       (Local_getMetadataPath priv) = Some (Document (Local_record pub priv now content name mime))"
  "map_of (filesFolder (Local_stored pub priv now content name mime fs)) pub = Some content"
  by (simp_all add: Local_stored_def AList.update_conv')

lemma Local_record_sel [simp]:
  "publicKey (Local_record pub priv now content name mime) = pub"
  "privateKey (Local_record pub priv now content name mime) = priv"
  "mimeType (Local_record pub priv now content name mime) = mime"
  "originalName (Local_record pub priv now content name mime) = name"
  "createdAt (Local_record pub priv now content name mime) = now"
  "lastAccessed (Local_record pub priv now content name mime) = None"
  by (simp_all add: Local_record_def)

lemma GCS_record_sel [simp]:
  "publicKey (GCS_record this pub priv now content name mime) = pub"
  "privateKey (GCS_record this pub priv now content name mime) = priv"
  "mimeType (GCS_record this pub priv now content name mime) = mime"
  "originalName (GCS_record this pub priv now content name mime) = name"
  "createdAt (GCS_record this pub priv now content name mime) = now"
  "lastAccessed (GCS_record this pub priv now content name mime) = None"
  "filePath (GCS_record this pub priv now content name mime) = GCS_getFilePath this pub"
  by (simp_all add: GCS_record_def)

lemma GCS_stored_lookup:
  "map_of (GCS_stored this pub priv now content name mime objs) (GCS_getMetadataPath this priv)
     = Some (Json (Document (GCS_record this pub priv now content name mime)))"
  "map_of (GCS_stored this pub priv now content name mime objs) (GCS_getMetadataPath this pub)
     = Some (Json (Document (GCS_record this pub priv now content name mime)))"
  "hexKey pub \<Longrightarrow>
   map_of (GCS_stored this pub priv now content name mime objs) (GCS_getFilePath this pub)
     = Some (Blob content)"
  using GCS_getFilePath_not_metadata [of pub this pub]
        GCS_getFilePath_not_metadata [of pub this priv]
  by (simp_all add: GCS_stored_def AList.update_conv')

section \<open>Deleting with the public key\<close>

text \<open>After any completed upload, \<^verbatim>\<open>deleteFile\<close> called with the public key deletes.\<close>

lemma Local_delete_by_publicKey:
  assumes "Local_uploadFile unw (pub, priv) now content name mime fs = (Inr keys, fs')"
  shows "fst (Local_deleteFile (fst keys) fs') = True"
    and "fst (Local_downloadFile unw' now' (fst keys) (snd (Local_deleteFile (fst keys) fs')))
           = Inl (Error ''File not found'')"
proof -
  from Local_uploadFile_Inr [OF assms]
  have k: "keys = (pub, priv)" and f: "fs' = Local_stored pub priv now content name mime fs"
    by simp_all
  show "fst (Local_deleteFile (fst keys) fs') = True"
    by (simp add: k f Local_deleteFile_eq Local_stored_lookup)
  show "fst (Local_downloadFile unw' now' (fst keys) (snd (Local_deleteFile (fst keys) fs')))
           = Inl (Error ''File not found'')"
    by (simp add: k f Local_deleteFile_eq Local_stored_lookup Local_downloadFile_eq
          AList.delete_conv')
qed

lemma GCS_delete_by_publicKey:
  assumes "GCS_uploadFile unw (pub, priv) now content name mime this = (Inr keys, this')"
  shows "fst (GCS_deleteFile (fst keys) this') = Inr True"
    and "fst (GCS_downloadFile unw' now' (fst keys) (snd (GCS_deleteFile (fst keys) this')))
           = Inl (Error ''File not found'')"
proof -
  from GCS_uploadFile_Inr [OF assms] obtain objs where
    b: "bucket this = Some objs" and k: "keys = (pub, priv)"
    and t: "this' = this\<lparr>bucket := Some (GCS_stored this pub priv now content name mime objs)\<rparr>"
    by blast
  have b': "bucket this' = Some (GCS_stored this pub priv now content name mime objs)"
    by (simp add: t)
  have p: "\<And>key. GCS_getMetadataPath this' key = GCS_getMetadataPath this key"
          "\<And>key. GCS_getFilePath this' key = GCS_getFilePath this key"
    by (simp_all add: t)
  define objs' where "objs' = AList.delete (GCS_getMetadataPath this pub)
          (AList.delete (GCS_getMetadataPath this pub)
            (AList.delete (GCS_getFilePath this pub)
               (GCS_stored this pub priv now content name mime objs)))"
  have d: "GCS_deleteFile pub this' = (Inr True, this'\<lparr>bucket := Some objs'\<rparr>)"
    by (simp add: GCS_deleteFile_eq [OF b'] p GCS_stored_lookup GCS_getFilePath_nonempty
          objs'_def)
  show "fst (GCS_deleteFile (fst keys) this') = Inr True"
    by (simp add: k d)
  have gone: "map_of objs' (GCS_getMetadataPath this pub) = None"
    by (simp add: objs'_def AList.delete_conv')
  have b'': "bucket (this'\<lparr>bucket := Some objs'\<rparr>) = Some objs'" by simp
  show "fst (GCS_downloadFile unw' now' (fst keys) (snd (GCS_deleteFile (fst keys) this')))
           = Inl (Error ''File not found'')"
    by (simp add: k d GCS_downloadFile_eq [OF b''] p gone)
qed

text \<open>
  C1. The claim fails on both providers: after the upload of the sample file,
  \<^verbatim>\<open>deleteFile\<close> called with the public key answers \<^verbatim>\<open>true\<close>, and the object is then
  gone for \<^verbatim>\<open>downloadFile\<close> under that key.
\<close>

theorem delete_with_public_key_deletes:
  "fst (Local_deleteFile pubA uploadedLocal) = True
   \<and> fst (Local_downloadFile {} 2000 pubA (snd (Local_deleteFile pubA uploadedLocal)))
       = Inl (Error ''File not found'')
   \<and> fst (GCS_deleteFile pubA uploadedGCS) = Inr True
   \<and> fst (GCS_downloadFile {} 2000 pubA (snd (GCS_deleteFile pubA uploadedGCS)))
       = Inl (Error ''File not found'')"
  by code_simp

section \<open>Downloading with the private key\<close>

lemma GCS_download_by_privateKey:
  assumes up: "GCS_uploadFile unw (pub, priv) now content name mime this = (Inr keys, this')"
    and hex: "hexKey pub"
    and w: "GCS_getMetadataPath this priv \<notin> unw'"
  shows "fst (GCS_downloadFile unw' now' (snd keys) this') = Inr (Blob content, mime, name)"
proof -
  from GCS_uploadFile_Inr [OF up] obtain objs where
    b: "bucket this = Some objs" and k: "keys = (pub, priv)"
    and t: "this' = this\<lparr>bucket := Some (GCS_stored this pub priv now content name mime objs)\<rparr>"
    by blast
  have b': "bucket this' = Some (GCS_stored this pub priv now content name mime objs)"
    by (simp add: t)
  have p: "\<And>key. GCS_getMetadataPath this' key = GCS_getMetadataPath this key"
          "\<And>key. GCS_getFilePath this' key = GCS_getFilePath this key"
    by (simp_all add: t)
  show ?thesis
    using w by (simp add: k GCS_downloadFile_eq [OF b'] p GCS_stored_lookup hex
                  GCS_getFilePath_nonempty)
qed

lemma Local_download_by_privateKey:
  assumes up: "Local_uploadFile unw (pub, priv) now content name mime fs = (Inr keys, fs')"
    and ne: "pub \<noteq> priv"
    and fresh: "map_of (filesFolder fs) priv = None"
  shows "Local_downloadFile unw' now' (snd keys) fs' = (Inl (Error ''ENOENT''), fs')"
proof -
  from Local_uploadFile_Inr [OF up]
  have k: "keys = (pub, priv)" and f: "fs' = Local_stored pub priv now content name mime fs"
    by simp_all
  have "map_of (filesFolder fs') priv = None"
    using ne fresh by (simp add: f Local_stored_def AList.update_conv')
  then show ?thesis
    by (simp add: k Local_downloadFile_eq) (simp add: f Local_stored_lookup)
qed

text \<open>
  C3. The claim fails on the cloud provider: \<^verbatim>\<open>downloadFile\<close> called with the private key
  of the sample upload returns the stored content, because the content is read from the
  record's \<^verbatim>\<open>filePath\<close>. The local provider rejects the same call.
\<close>

theorem download_with_private_key:
  "fst (GCS_downloadFile {} 2000 privA uploadedGCS) = Inr (Blob [1, 2, 3], ''text/plain'', ''a.txt'')
   \<and> fst (Local_downloadFile {} 2000 privA uploadedLocal) = Inl (Error ''ENOENT'')"
  by code_simp

section \<open>Upload then download\<close>

text \<open>
  C6. After a completed upload, \<^verbatim>\<open>downloadFile\<close> with the returned public key gives back
  the uploaded bytes with the MIME type and the original name, provided the two metadata
  writes of the download are not refused. On the cloud provider the public key is a key as
  \<^verbatim>\<open>_generateKeys\<close> draws it.
\<close>

theorem put_get_round_trip:
  "(\<forall>keys fs'. Local_uploadFile unw (pub, priv) now content name mime fs = (Inr keys, fs')
       \<longrightarrow> (MetadataFolder, Local_getMetadataPath pub) \<notin> unw'
       \<longrightarrow> (MetadataFolder, Local_getMetadataPath priv) \<notin> unw'
       \<longrightarrow> fst (Local_downloadFile unw' now' (fst keys) fs') = Inr (content, mime, name))
   \<and> (\<forall>keys this'. GCS_uploadFile gunw (pub, priv) now content name mime this = (Inr keys, this')
       \<longrightarrow> hexKey pub
       \<longrightarrow> GCS_getMetadataPath this pub \<notin> gunw'
       \<longrightarrow> GCS_getMetadataPath this priv \<notin> gunw'
       \<longrightarrow> fst (GCS_downloadFile gunw' now' (fst keys) this') = Inr (Blob content, mime, name))"
proof (intro conjI allI impI)
  fix keys fs'
  assume up: "Local_uploadFile unw (pub, priv) now content name mime fs = (Inr keys, fs')"
    and w: "(MetadataFolder, Local_getMetadataPath pub) \<notin> unw'"
           "(MetadataFolder, Local_getMetadataPath priv) \<notin> unw'"
  from Local_uploadFile_Inr [OF up]
  have k: "keys = (pub, priv)" and f: "fs' = Local_stored pub priv now content name mime fs"
    by simp_all
  show "fst (Local_downloadFile unw' now' (fst keys) fs') = Inr (content, mime, name)"
    using w by (simp add: k Local_downloadFile_eq) (simp add: f Local_stored_lookup)
next
  fix keys this'
  assume up: "GCS_uploadFile gunw (pub, priv) now content name mime this = (Inr keys, this')"
    and hex: "hexKey pub"
    and w: "GCS_getMetadataPath this pub \<notin> gunw'" "GCS_getMetadataPath this priv \<notin> gunw'"
  from GCS_uploadFile_Inr [OF up] obtain objs where
    b: "bucket this = Some objs" and k: "keys = (pub, priv)"
    and t: "this' = this\<lparr>bucket := Some (GCS_stored this pub priv now content name mime objs)\<rparr>"
    by blast
  have b': "bucket this' = Some (GCS_stored this pub priv now content name mime objs)"
    by (simp add: t)
  have p: "\<And>key. GCS_getMetadataPath this' key = GCS_getMetadataPath this key"
          "\<And>key. GCS_getFilePath this' key = GCS_getFilePath this key"
    by (simp_all add: t)
  show "fst (GCS_downloadFile gunw' now' (fst keys) this') = Inr (Blob content, mime, name)"
    using w by (simp add: k GCS_downloadFile_eq [OF b'] p GCS_stored_lookup hex
                  GCS_getFilePath_nonempty)
qed

theorem put_get_round_trip_witness:
  "fst (Local_downloadFile {} 2000 pubA uploadedLocal) = Inr ([1, 2, 3], ''text/plain'', ''a.txt'')
   \<and> fst (GCS_downloadFile {} 2000 pubA uploadedGCS) = Inr (Blob [1, 2, 3], ''text/plain'', ''a.txt'')"
  using put_get_round_trip [of "{}" pubA privA 1000 "[1, 2, 3]" "''a.txt''" "''text/plain''"
          emptyLocal "{}" 2000 "{}" emptyGCS "{}"]
        Local_upload_sample GCS_upload_sample hexKey_pubA
  by simp

section \<open>Deleting twice\<close>

lemma Local_delete_twice:
  assumes "readMetadata (Local_getMetadataPath key) fs = Inr (Document m)"
  shows "fst (Local_deleteFile key fs) = True"
    and "fst (Local_deleteFile key (snd (Local_deleteFile key fs))) = False"
proof -
  from assms have r: "map_of (metadataFolder fs) (Local_getMetadataPath key) = Some (Document m)"
    by (simp add: readMetadata_def split: option.splits)
  show "fst (Local_deleteFile key fs) = True"
    by (simp add: Local_deleteFile_eq r)
  have "map_of (metadataFolder (snd (Local_deleteFile key fs))) (Local_getMetadataPath key) = None"
    by (simp add: Local_deleteFile_eq r AList.delete_conv')
  then show "fst (Local_deleteFile key (snd (Local_deleteFile key fs))) = False"
    by (simp add: Local_deleteFile_eq [of key "snd (Local_deleteFile key fs)"])
qed

lemma GCS_delete_twice:
  assumes b: "bucket this = Some objs"
    and r: "map_of objs (GCS_getMetadataPath this key) = Some (Json (Document m))"
  shows "fst (GCS_deleteFile key this) = Inr True"
    and "fst (GCS_deleteFile key (snd (GCS_deleteFile key this))) = Inr False"
proof -
  define objs' where "objs' = AList.delete (GCS_getMetadataPath this key)
               (AList.delete (GCS_getMetadataPath this (publicKey m))
                 (AList.delete (if filePath m \<noteq> [] then filePath m
                                else GCS_getFilePath this (publicKey m)) objs))"
  have d: "GCS_deleteFile key this = (Inr True, this\<lparr>bucket := Some objs'\<rparr>)"
    by (simp add: GCS_deleteFile_eq [OF b] r objs'_def)
  show "fst (GCS_deleteFile key this) = Inr True" by (simp add: d)
  have gone: "map_of objs' (GCS_getMetadataPath this key) = None"
    by (simp add: objs'_def AList.delete_conv')
  have b': "bucket (this\<lparr>bucket := Some objs'\<rparr>) = Some objs'" by simp
  show "fst (GCS_deleteFile key (snd (GCS_deleteFile key this))) = Inr False"
    by (simp add: d GCS_deleteFile_eq [OF b'] gone)
qed

text \<open>
  C5. On both providers: after a completed upload, \<^verbatim>\<open>deleteFile\<close> with the returned
  private key answers \<^verbatim>\<open>true\<close> and a second call answers \<^verbatim>\<open>false\<close>; and whenever no
  metadata file exists under the key, \<^verbatim>\<open>deleteFile\<close> answers \<^verbatim>\<open>false\<close>, raises nothing
  and leaves the store as it was.
\<close>

theorem delete_idempotent:
  "(\<forall>keys fs'. Local_uploadFile unw (pub, priv) now content name mime fs = (Inr keys, fs')
       \<longrightarrow> fst (Local_deleteFile (snd keys) fs') = True
         \<and> fst (Local_deleteFile (snd keys) (snd (Local_deleteFile (snd keys) fs'))) = False)
   \<and> (\<forall>e. readMetadata (Local_getMetadataPath key) fs = Inl e
       \<longrightarrow> Local_deleteFile key fs = (False, fs))
   \<and> (\<forall>keys this'. GCS_uploadFile gunw (pub, priv) now content name mime this = (Inr keys, this')
       \<longrightarrow> fst (GCS_deleteFile (snd keys) this') = Inr True
         \<and> fst (GCS_deleteFile (snd keys) (snd (GCS_deleteFile (snd keys) this'))) = Inr False)
   \<and> (\<forall>objs. bucket this = Some objs \<longrightarrow> \<not> bucket_exists (GCS_getMetadataPath this key) objs
       \<longrightarrow> GCS_deleteFile key this = (Inr False, this))"
proof (intro conjI allI impI)
  fix keys fs'
  assume up: "Local_uploadFile unw (pub, priv) now content name mime fs = (Inr keys, fs')"
  from Local_uploadFile_Inr [OF up]
  have k: "keys = (pub, priv)" and f: "fs' = Local_stored pub priv now content name mime fs"
    by simp_all
  have r: "readMetadata (Local_getMetadataPath (snd keys)) fs' =
             Inr (Document (Local_record pub priv now content name mime))"
    by (simp add: k f readMetadata_def Local_stored_lookup)
  show "fst (Local_deleteFile (snd keys) fs') = True"
    by (rule Local_delete_twice(1) [OF r])
  show "fst (Local_deleteFile (snd keys) (snd (Local_deleteFile (snd keys) fs'))) = False"
    by (rule Local_delete_twice(2) [OF r])
next
  fix e
  assume "readMetadata (Local_getMetadataPath key) fs = Inl e"
  then have "map_of (metadataFolder fs) (Local_getMetadataPath key) = None"
    by (simp add: readMetadata_def split: option.splits)
  then show "Local_deleteFile key fs = (False, fs)"
    by (simp add: Local_deleteFile_eq)
next
  fix keys this'
  assume up: "GCS_uploadFile gunw (pub, priv) now content name mime this = (Inr keys, this')"
  from GCS_uploadFile_Inr [OF up] obtain objs where
    b: "bucket this = Some objs" and k: "keys = (pub, priv)"
    and t: "this' = this\<lparr>bucket := Some (GCS_stored this pub priv now content name mime objs)\<rparr>"
    by blast
  have b': "bucket this' = Some (GCS_stored this pub priv now content name mime objs)"
    by (simp add: t)
  have r: "map_of (GCS_stored this pub priv now content name mime objs)
             (GCS_getMetadataPath this' (snd keys))
           = Some (Json (Document (GCS_record this pub priv now content name mime)))"
    by (simp add: k t GCS_stored_lookup)
  show "fst (GCS_deleteFile (snd keys) this') = Inr True"
    by (rule GCS_delete_twice(1) [OF b' r])
  show "fst (GCS_deleteFile (snd keys) (snd (GCS_deleteFile (snd keys) this'))) = Inr False"
    by (rule GCS_delete_twice(2) [OF b' r])
next
  fix objs
  assume "bucket this = Some objs" and "\<not> bucket_exists (GCS_getMetadataPath this key) objs"
  then show "GCS_deleteFile key this = (Inr False, this)"
    by (simp add: GCS_deleteFile_eq bucket_exists_def)
qed

theorem delete_idempotent_witness:
  "fst (Local_deleteFile privA uploadedLocal) = True
   \<and> fst (Local_deleteFile privA (snd (Local_deleteFile privA uploadedLocal))) = False
   \<and> Local_deleteFile ''non-existent-key'' emptyLocal = (False, emptyLocal)
   \<and> fst (GCS_deleteFile privA uploadedGCS) = Inr True
   \<and> fst (GCS_deleteFile privA (snd (GCS_deleteFile privA uploadedGCS))) = Inr False
   \<and> GCS_deleteFile ''non-existent-key'' emptyGCS = (Inr False, emptyGCS)"
proof -
  have a: "readMetadata (Local_getMetadataPath ''non-existent-key'') emptyLocal
             = Inl (Error ''ENOENT'')"
    by (simp add: readMetadata_def emptyLocal_def)
  have b: "bucket emptyGCS = Some []"
          "\<not> bucket_exists (GCS_getMetadataPath emptyGCS ''non-existent-key'') []"
    by (simp_all add: emptyGCS_def bucket_exists_def)
  from delete_idempotent [where unw = "{}" and pub = pubA and priv = privA and now = 1000
          and content = "[1, 2, 3]" and name = "''a.txt''" and mime = "''text/plain''"
          and fs = emptyLocal and key = "''non-existent-key''" and gunw = "{}"
          and this = emptyGCS]
       Local_upload_sample GCS_upload_sample a b
  show ?thesis by simp
qed


section \<open>An upload whose write is refused\<close>

text \<open>
  C2 as stated fails: with the write of the private-key metadata refused, the sample upload
  rejects, yet the content and the public-key metadata it wrote stay, and
  \<^verbatim>\<open>downloadFile\<close> serves the content under the public key.
\<close>

theorem put_failure_counterexample:
  "fst (Local_uploadFile {(MetadataFolder, Local_getMetadataPath privA)} (pubA, privA) 1000
          [1, 2, 3] ''a.txt'' ''text/plain'' emptyLocal) = Inl (Error ''EACCES'')
   \<and> interruptedLocal \<noteq> emptyLocal
   \<and> fst (Local_downloadFile {} 2000 pubA interruptedLocal)
       = Inr ([1, 2, 3], ''text/plain'', ''a.txt'')
   \<and> fst (GCS_uploadFile {GCS_getMetadataPath emptyGCS privA} (pubA, privA) 1000
          [1, 2, 3] ''a.txt'' ''text/plain'' emptyGCS) = Inl (Error ''save failed'')
   \<and> interruptedGCS \<noteq> emptyGCS
   \<and> fst (GCS_downloadFile {} 2000 pubA interruptedGCS)
       = Inr (Blob [1, 2, 3], ''text/plain'', ''a.txt'')"
  by code_simp

text \<open>
  C2, amended. An upload rejects exactly when one of its three writes is refused; it stops
  at the first refused write, and the store is then as the writes before it left it: unchanged
  when the content write is refused, with the content when the public-key metadata write
  is refused, with the content and the public-key metadata when the private-key metadata
  write is refused. Nothing is removed.
\<close>

theorem put_failure_keeps_earlier_writes:
  "Local_uploadFile unw (pub, priv) now content name mime fs =
     (if (FilesFolder, Local_getFilePath pub) \<in> unw then (Inl (Error ''EACCES''), fs)
      else if (MetadataFolder, Local_getMetadataPath pub) \<in> unw then
        (Inl (Error ''EACCES''), fs\<lparr>filesFolder := AList.update pub content (filesFolder fs)\<rparr>)
      else if (MetadataFolder, Local_getMetadataPath priv) \<in> unw then
        (Inl (Error ''EACCES''),
         \<lparr>filesFolder = AList.update pub content (filesFolder fs),
          metadataFolder = AList.update (Local_getMetadataPath pub)
             (Document (Local_record pub priv now content name mime)) (metadataFolder fs)\<rparr>)
      else (Inr (pub, priv), Local_stored pub priv now content name mime fs))
   \<and> (\<forall>objs. bucket this = Some objs \<longrightarrow>
        GCS_uploadFile gunw (pub, priv) now content name mime this =
          (if GCS_getFilePath this pub \<in> gunw then (Inl (Error ''save failed''), this)
           else if GCS_getMetadataPath this pub \<in> gunw then
             (Inl (Error ''save failed''),
              this\<lparr>bucket := Some (AList.update (GCS_getFilePath this pub) (Blob content) objs)\<rparr>)
           else if GCS_getMetadataPath this priv \<in> gunw then
             (Inl (Error ''save failed''),
              this\<lparr>bucket := Some (AList.update (GCS_getMetadataPath this pub)
                 (Json (Document (GCS_record this pub priv now content name mime)))
                 (AList.update (GCS_getFilePath this pub) (Blob content) objs))\<rparr>)
           else (Inr (pub, priv),
                 this\<lparr>bucket := Some (GCS_stored this pub priv now content name mime objs)\<rparr>)))"
  by (simp add: Local_uploadFile_eq GCS_uploadFile_eq)

theorem put_failure_keeps_earlier_writes_witness:
  "Local_uploadFile {(MetadataFolder, Local_getMetadataPath privA)} (pubA, privA) 1000
          [1, 2, 3] ''a.txt'' ''text/plain'' emptyLocal
     = (Inl (Error ''EACCES''),
        \<lparr>filesFolder = [(pubA, [1, 2, 3])],
         metadataFolder = [(Local_getMetadataPath pubA,
            Document (Local_record pubA privA 1000 [1, 2, 3] ''a.txt'' ''text/plain''))]\<rparr>)
   \<and> GCS_uploadFile {GCS_getMetadataPath emptyGCS privA} (pubA, privA) 1000
          [1, 2, 3] ''a.txt'' ''text/plain'' emptyGCS
     = (Inl (Error ''save failed''),
        emptyGCS\<lparr>bucket := Some [(GCS_getFilePath emptyGCS pubA, Blob [1, 2, 3]),
           (GCS_getMetadataPath emptyGCS pubA,
            Json (Document (GCS_record emptyGCS pubA privA 1000 [1, 2, 3] ''a.txt'' ''text/plain'')))]\<rparr>)"
proof -
  have a: "(FilesFolder, Local_getFilePath pubA) \<notin> {(MetadataFolder, Local_getMetadataPath privA)}"
    "(MetadataFolder, Local_getMetadataPath pubA) \<notin> {(MetadataFolder, Local_getMetadataPath privA)}"
    using pubA_neq_privA by (simp_all add: Local_getMetadataPath_def)
  have b: "GCS_getFilePath emptyGCS pubA \<notin> {GCS_getMetadataPath emptyGCS privA}"
    "GCS_getMetadataPath emptyGCS pubA \<notin> {GCS_getMetadataPath emptyGCS privA}"
    "GCS_getFilePath emptyGCS pubA \<noteq> GCS_getMetadataPath emptyGCS pubA"
    using pubA_neq_privA GCS_getFilePath_not_metadata [OF hexKey_pubA, of emptyGCS privA]
      GCS_getFilePath_not_metadata [OF hexKey_pubA, of emptyGCS pubA]
    by (simp_all add: GCS_getMetadataPath_def)
  have c: "bucket emptyGCS = Some []" by (simp add: emptyGCS_def)
  from put_failure_keeps_earlier_writes [of "{(MetadataFolder, Local_getMetadataPath privA)}"
         pubA privA 1000 "[1, 2, 3]" "''a.txt''" "''text/plain''" emptyLocal emptyGCS
         "{GCS_getMetadataPath emptyGCS privA}"] a b c
  show ?thesis by (simp add: emptyLocal_def)
qed

section \<open>Upload accounting\<close>

lemma uploadedToday_eq:
  "uploadedToday addr today store =
     (case store (getUsageKey addr today) of None \<Rightarrow> 0 | Some r \<Rightarrow> upload r)"
  by (simp add: uploadedToday_def getUsage_def getUsageRecord_def Let_def split: option.splits)

lemma uploadedToday_addUpload:
  "store (getUsageKey addr today) \<noteq> None \<Longrightarrow>
   uploadedToday addr today (addUpload (getUsageKey addr today) n store)
     = uploadedToday addr today store + n"
  by (auto simp: uploadedToday_eq addUpload_def split: option.splits)

lemma addUpload_dom:
  "store key \<noteq> None \<Longrightarrow> addUpload key n store key \<noteq> None"
  by (auto simp: addUpload_def split: option.splits)

lemma uploadLimiter_store:
  "snd (uploadLimiter env today req store) (getUsageKey (clientIp req) today) \<noteq> None"
  "uploadedToday (clientIp req) today (snd (uploadLimiter env today req store))
     = uploadedToday (clientIp req) today store"
  by (auto simp: uploadLimiter_def getUsageRecord_def uploadedToday_eq Let_def
           split: option.splits)

lemma postFiles_completed_upload:
  assumes adm: "fst (uploadLimiter env today req store) = Next"
    and up: "uploadFile provider (file_buffer f) (file_originalname f) (file_mimetype f) s
               = (Inr keys, s')"
  shows "\<exists>store'. postFiles jsonCallsSend env today provider req (Some f) (s, store)
                    = (201, s', store')
           \<and> uploadedToday (clientIp req) today store'
               = uploadedToday (clientIp req) today store
                 + (if jsonCallsSend then 2 else 1) * int (file_size f)"
proof -
  obtain a st where ul: "uploadLimiter env today req store = (a, st)"
    by (cases "uploadLimiter env today req store")
  with adm have a: "a = Next" by simp
  from uploadLimiter_store [where env = env and today = today and req = req and store = store] ul
  have st: "st (getUsageKey (clientIp req) today) \<noteq> None"
    "uploadedToday (clientIp req) today st = uploadedToday (clientIp req) today store"
    by simp_all
  let ?key = "getUsageKey (clientIp req) today"
  let ?req = "req\<lparr>req_file := Some f\<rparr>"
  have sz: "uploadSize ?req = int (file_size f)" by (simp add: uploadSize_def)
  have pf: "postFiles jsonCallsSend env today provider req (Some f) (s, store)
              = (201, s', res_json jsonCallsSend ?key ?req st)"
    by (simp add: postFiles_def ul a up Let_def)
  have "uploadedToday (clientIp req) today (res_json jsonCallsSend ?key ?req st)
          = uploadedToday (clientIp req) today store
            + (if jsonCallsSend then 2 else 1) * int (file_size f)"
    using st
    by (simp add: res_json_def res_send_def Let_def sz uploadedToday_addUpload addUpload_dom)
  with pf show ?thesis by simp
qed

text \<open>
  C4. The claim fails on a response object whose own \<^verbatim>\<open>json\<close> calls \<^verbatim>\<open>this.send\<close>, as
  Express's does: the completed upload of a 1024-byte file from a fresh origin is answered
  with 201 and leaves the origin's upload counter at 2048. On a response object whose
  \<^verbatim>\<open>json\<close> does not call \<^verbatim>\<open>send\<close> (the mock of the unit test) the counter is 1024.
\<close>

theorem upload_counted_twice:
  "fst (postFiles True None ''2024-0-17'' (LocalFileSystemProvider {} (pubA, privA) 1000)
          sampleRequest (Some sampleFile) (emptyLocal, Map.empty)) = 201
   \<and> uploadedToday ''192.168.1.1'' ''2024-0-17''
        (snd (snd (postFiles True None ''2024-0-17'' (LocalFileSystemProvider {} (pubA, privA) 1000)
          sampleRequest (Some sampleFile) (emptyLocal, Map.empty)))) = 2048
   \<and> uploadedToday ''192.168.1.1'' ''2024-0-17''
        (snd (snd (postFiles False None ''2024-0-17'' (LocalFileSystemProvider {} (pubA, privA) 1000)
          sampleRequest (Some sampleFile) (emptyLocal, Map.empty)))) = 1024"
proof -
  have ip: "clientIp sampleRequest = ''192.168.1.1''"
    by (simp add: clientIp_def sampleRequest_def)
  have adm: "fst (uploadLimiter None ''2024-0-17'' sampleRequest Map.empty) = Next"
    by (simp add: uploadLimiter_def getUsageRecord_def UPLOAD_LIMIT_def DEFAULT_UPLOAD_LIMIT_def
          Let_def)
  have up: "uploadFile (LocalFileSystemProvider {} (pubA, privA) 1000) (file_buffer sampleFile)
              (file_originalname sampleFile) (file_mimetype sampleFile) emptyLocal
            = (Inr (pubA, privA),
               Local_stored pubA privA 1000 (file_buffer sampleFile) (file_originalname sampleFile)
                 (file_mimetype sampleFile) emptyLocal)"
    by (simp add: LocalFileSystemProvider_def Local_uploadFile_eq)
  have z: "uploadedToday ''192.168.1.1'' ''2024-0-17'' Map.empty = 0"
    by (simp add: uploadedToday_eq)
  have sz: "file_size sampleFile = 1024" by (simp add: sampleFile_def)
  from postFiles_completed_upload [OF adm up, of True] postFiles_completed_upload [OF adm up, of False]
  show ?thesis by (auto simp: ip z sz)
qed

section \<open>The inactive-file scan of the cloud provider\<close>

lemma replace_prefix: "replace (p @ r) p [] = r"
proof (cases "p @ r")
  case Nil
  then show ?thesis by simp
next
  case (Cons c cs)
  have "startsWith (p @ r) p" by (simp add: startsWith_def)
  with Cons have "replace (p @ r) p [] = drop (length p) (p @ r)" by simp
  then show ?thesis by simp
qed

lemma startsWith_append: "startsWith (p @ r) p"
  by (simp add: startsWith_def)

lemma GCS_scan_concat:
  "GCS_scan c this files acc = acc @ concat (map (GCS_inspect c this) files)"
  by (induction files arbitrary: acc) simp_all

lemma GCS_getInactiveFiles_concat:
  "bucket this = Some objs \<Longrightarrow>
   GCS_getInactiveFiles c this =
     Inr (concat (map (GCS_inspect c this) (getFiles (metadataPrefix this) objs)))"
  by (simp add: GCS_getInactiveFiles_def GCS_scan_concat)

lemma GCS_consistentD:
  assumes "GCS_consistent this" and "bucket this = Some objs"
    and "(name, Json (Document m)) \<in> set objs"
  shows "hexKey (publicKey m)" "hexKey (privateKey m)" "publicKey m \<noteq> privateKey m"
    "name = GCS_getMetadataPath this (publicKey m) \<or> name = GCS_getMetadataPath this (privateKey m)"
    "map_of objs (GCS_getMetadataPath this (publicKey m)) = Some (Json (Document m))"
    "map_of objs (GCS_getMetadataPath this (privateKey m)) = Some (Json (Document m))"
    "filePath m = GCS_getFilePath this (publicKey m)"
proof -
  from assms have "GCS_filed this (map_of objs) (name, Json (Document m))"
    by (auto simp: GCS_consistent_def list_all_iff)
  then show "hexKey (publicKey m)" "hexKey (privateKey m)" "publicKey m \<noteq> privateKey m"
    "name = GCS_getMetadataPath this (publicKey m) \<or> name = GCS_getMetadataPath this (privateKey m)"
    "map_of objs (GCS_getMetadataPath this (publicKey m)) = Some (Json (Document m))"
    "map_of objs (GCS_getMetadataPath this (privateKey m)) = Some (Json (Document m))"
    "filePath m = GCS_getFilePath this (publicKey m)"
    by (simp_all add: GCS_filed_def)
qed

lemma GCS_key_from_name:
  "CHR ''.'' \<notin> set k \<Longrightarrow>
   replace (replace (GCS_getMetadataPath this k) (metadataPrefix this) []) ''.json'' [] = k"
  by (simp add: GCS_getMetadataPath_def replace_prefix replace_json_suffix)

lemma GCS_inspect_Document:
  assumes c: "GCS_consistent this" and b: "bucket this = Some objs"
    and e: "(name, Json (Document m)) \<in> set objs"
  shows "GCS_inspect cutoff this (name, Json (Document m)) =
           (if name = GCS_getMetadataPath this (privateKey m) \<and> referenceDate m < cutoff
            then [privateKey m] else [])"
proof -
  note D = GCS_consistentD [OF c b e]
  from D(4) show ?thesis
  proof
    assume n: "name = GCS_getMetadataPath this (publicKey m)"
    then have "replace (replace name (metadataPrefix this) []) ''.json'' [] = publicKey m"
      using hexKey_no_dot [OF D(1)] by (simp add: GCS_key_from_name)
    moreover have "name \<noteq> GCS_getMetadataPath this (privateKey m)"
      using n D(3) by (simp add: GCS_getMetadataPath_def)
    ultimately show ?thesis
      using D(3) by (simp add: GCS_inspect_def GCS_parse_def JSON_parse_def Let_def)
  next
    assume n: "name = GCS_getMetadataPath this (privateKey m)"
    then have "replace (replace name (metadataPrefix this) []) ''.json'' [] = privateKey m"
      using hexKey_no_dot [OF D(2)] by (simp add: GCS_key_from_name)
    then show ?thesis
      using n by (simp add: GCS_inspect_def GCS_parse_def JSON_parse_def Let_def)
  qed
qed

lemma GCS_inspect_other:
  "GCS_inspect cutoff this (name, Blob b) = []"
  "GCS_inspect cutoff this (name, Json Unparseable) = []"
  by (simp_all add: GCS_inspect_def GCS_parse_def JSON_parse_def)

lemma GCS_records_iff:
  "bucket this = Some objs \<Longrightarrow>
   m \<in> set (GCS_records this) \<longleftrightarrow> (\<exists>name. (name, Json (Document m)) \<in> set objs)"
  by (force simp: GCS_records_def split: gcontent.splits document.splits)

lemma set_GCS_getInactiveFiles:
  assumes c: "GCS_consistent this" and b: "bucket this = Some objs"
  shows "\<exists>keys. GCS_getInactiveFiles cutoff this = Inr keys \<and>
           set keys = privateKey ` {m \<in> set (GCS_records this). referenceDate m < cutoff}"
proof -
  let ?keys = "concat (map (GCS_inspect cutoff this) (getFiles (metadataPrefix this) objs))"
  have "set ?keys = privateKey ` {m \<in> set (GCS_records this). referenceDate m < cutoff}"
  proof (intro set_eqI iffI)
    fix k
    assume "k \<in> set ?keys"
    then obtain name content where e: "(name, content) \<in> set objs"
      and k: "k \<in> set (GCS_inspect cutoff this (name, content))"
      by (auto simp: getFiles_def)
    show "k \<in> privateKey ` {m \<in> set (GCS_records this). referenceDate m < cutoff}"
    proof (cases content)
      case (Blob bb)
      with k show ?thesis by (simp add: GCS_inspect_other)
    next
      case (Json doc)
      show ?thesis
      proof (cases doc)
        case Unparseable
        with Json k show ?thesis by (simp add: GCS_inspect_other)
      next
        case (Document m)
        with Json e have e': "(name, Json (Document m)) \<in> set objs" by simp
        from k Json Document have "k = privateKey m" "referenceDate m < cutoff"
          by (simp_all add: GCS_inspect_Document [OF c b e'] split: if_splits)
        moreover from e' have "m \<in> set (GCS_records this)"
          by (auto simp: GCS_records_iff [OF b])
        ultimately show ?thesis by blast
      qed
    qed
  next
    fix k
    assume "k \<in> privateKey ` {m \<in> set (GCS_records this). referenceDate m < cutoff}"
    then obtain m where m: "m \<in> set (GCS_records this)" and r: "referenceDate m < cutoff"
      and k: "k = privateKey m" by blast
    from m obtain name where e: "(name, Json (Document m)) \<in> set objs"
      by (auto simp: GCS_records_iff [OF b])
    from GCS_consistentD(6) [OF c b e]
    have e': "(GCS_getMetadataPath this (privateKey m), Json (Document m)) \<in> set objs"
      by (rule map_of_SomeD)
    then have l: "(GCS_getMetadataPath this (privateKey m), Json (Document m))
                    \<in> set (getFiles (metadataPrefix this) objs)"
      by (simp add: getFiles_def GCS_getMetadataPath_def startsWith_append)
    have kin: "k \<in> set (GCS_inspect cutoff this
                  (GCS_getMetadataPath this (privateKey m), Json (Document m)))"
      using r k by (simp add: GCS_inspect_Document [OF c b e'])
    from l kin show "k \<in> set ?keys"
      by (auto intro!: bexI [of _ "(GCS_getMetadataPath this (privateKey m), Json (Document m))"])
  qed
  then show ?thesis by (simp add: GCS_getInactiveFiles_concat [OF b])
qed

lemma GCS_inspect_shape:
  "GCS_inspect cutoff this obj = [] \<or>
   GCS_inspect cutoff this obj =
     [replace (replace (fst obj) (metadataPrefix this) []) ''.json'' []]"
  by (simp add: GCS_inspect_def Let_def split: sum.splits)

lemma GCS_inspect_nonempty:
  assumes c: "GCS_consistent this" and b: "bucket this = Some objs"
    and e: "obj \<in> set objs" and ne: "GCS_inspect cutoff this obj \<noteq> []"
  shows "fst obj = metadataPrefix this
           @ replace (replace (fst obj) (metadataPrefix this) []) ''.json'' [] @ ''.json''"
proof -
  obtain name content where f: "obj = (name, content)" by (cases obj)
  show ?thesis
  proof (cases content)
    case (Blob bb)
    with f ne show ?thesis by (simp add: GCS_inspect_other)
  next
    case (Json doc)
    show ?thesis
    proof (cases doc)
      case Unparseable
      with Json f ne show ?thesis by (simp add: GCS_inspect_other)
    next
      case (Document m)
      with Json f e have e': "(name, Json (Document m)) \<in> set objs" by simp
      from ne f Json Document have nm: "name = GCS_getMetadataPath this (privateKey m)"
        by (simp add: GCS_inspect_Document [OF c b e'] split: if_splits)
      then have "replace (replace name (metadataPrefix this) []) ''.json'' [] = privateKey m"
        using hexKey_no_dot [OF GCS_consistentD(2) [OF c b e']]
        by (simp add: GCS_key_from_name)
      with nm f show ?thesis by (simp add: GCS_getMetadataPath_def)
    qed
  qed
qed

lemma distinct_GCS_getInactiveFiles:
  assumes c: "GCS_consistent this" and b: "bucket this = Some objs"
  shows "\<exists>keys. GCS_getInactiveFiles cutoff this = Inr keys \<and> distinct keys"
proof -
  let ?files = "getFiles (metadataPrefix this) objs"
  let ?f = "GCS_inspect cutoff this"
  let ?g = "\<lambda>n. replace (replace n (metadataPrefix this) []) ''.json'' []"
  let ?hits = "filter (\<lambda>obj. ?f obj \<noteq> []) ?files"
  have eq: "concat (map ?f ?files) = map (\<lambda>obj. ?g (fst obj)) ?hits"
    by (rule concat_map_singletons) (rule GCS_inspect_shape)
  from c b have d: "distinct (map fst objs)" by (simp add: GCS_consistent_def)
  then have dh: "distinct (map fst ?hits)"
    by (simp add: getFiles_def distinct_map_filter)
  have inj: "inj_on ?g (set (map fst ?hits))"
  proof (rule inj_onI)
    fix a a'
    assume a: "a \<in> set (map fst ?hits)" and a': "a' \<in> set (map fst ?hits)"
      and g: "?g a = ?g a'"
    from a obtain obj where "obj \<in> set objs" "?f obj \<noteq> []" "a = fst obj"
      by (auto simp: getFiles_def)
    then have "a = metadataPrefix this @ ?g a @ ''.json''"
      using GCS_inspect_nonempty [OF c b, of obj cutoff] by simp
    moreover
    from a' obtain obj' where "obj' \<in> set objs" "?f obj' \<noteq> []" "a' = fst obj'"
      by (auto simp: getFiles_def)
    then have "a' = metadataPrefix this @ ?g a' @ ''.json''"
      using GCS_inspect_nonempty [OF c b, of obj' cutoff] by simp
    ultimately show "a = a'" using g by simp
  qed
  have "map (\<lambda>obj. ?g (fst obj)) ?hits = map ?g (map fst ?hits)" by simp
  moreover from dh inj have "distinct (map ?g (map fst ?hits))"
    by (simp only: distinct_map)
  ultimately have "distinct (concat (map ?f ?files))" by (simp only: eq)
  then show ?thesis by (simp add: GCS_getInactiveFiles_concat [OF b])
qed

lemma GCS_privateKey_inj:
  assumes c: "GCS_consistent this"
  shows "inj_on privateKey (set (GCS_records this))"
proof (rule inj_onI)
  fix m m'
  assume m: "m \<in> set (GCS_records this)" and m': "m' \<in> set (GCS_records this)"
    and k: "privateKey m = privateKey m'"
  from c obtain objs where b: "bucket this = Some objs"
    by (auto simp: GCS_consistent_def split: option.splits)
  from m obtain n where e: "(n, Json (Document m)) \<in> set objs"
    by (auto simp: GCS_records_iff [OF b])
  from m' obtain n' where e': "(n', Json (Document m')) \<in> set objs"
    by (auto simp: GCS_records_iff [OF b])
  have "map_of objs (GCS_getMetadataPath this (privateKey m)) = Some (Json (Document m))"
    by (rule GCS_consistentD(6) [OF c b e])
  moreover
  have "map_of objs (GCS_getMetadataPath this (privateKey m')) = Some (Json (Document m'))"
    by (rule GCS_consistentD(6) [OF c b e'])
  ultimately have "Some (Json (Document m)) = Some (Json (Document m'))"
    by (simp only: k)
  then show "m = m'" by (simp only: option.inject gcontent.inject document.inject)
qed

lemma GCS_publicKey_not_listed:
  assumes c: "GCS_consistent this" and r: "GCS_getInactiveFiles cutoff this = Inr keys"
    and m: "m \<in> set (GCS_records this)"
  shows "publicKey m \<notin> set keys"
proof
  assume l: "publicKey m \<in> set keys"
  from c obtain objs where b: "bucket this = Some objs"
    by (auto simp: GCS_consistent_def split: option.splits)
  from set_GCS_getInactiveFiles [OF c b, of cutoff] r
  have "set keys = privateKey ` {m \<in> set (GCS_records this). referenceDate m < cutoff}"
    by simp
  with l obtain m' where m': "m' \<in> set (GCS_records this)" and k: "publicKey m = privateKey m'"
    by auto
  from m obtain n where e: "(n, Json (Document m)) \<in> set objs"
    by (auto simp: GCS_records_iff [OF b])
  from m' obtain n' where e': "(n', Json (Document m')) \<in> set objs"
    by (auto simp: GCS_records_iff [OF b])
  have "map_of objs (GCS_getMetadataPath this (publicKey m)) = Some (Json (Document m))"
    by (rule GCS_consistentD(5) [OF c b e])
  moreover
  have "map_of objs (GCS_getMetadataPath this (privateKey m')) = Some (Json (Document m'))"
    by (rule GCS_consistentD(6) [OF c b e'])
  ultimately have "Some (Json (Document m)) = Some (Json (Document m'))"
    by (simp only: k)
  then have "m = m'" by (simp only: option.inject gcontent.inject document.inject)
  with k have "publicKey m = privateKey m" by (simp only:)
  with GCS_consistentD(3) [OF c b e] show False by blast
qed

lemma GCS_consistent_alt:
  "bucket this = Some objs \<Longrightarrow>
   GCS_consistent this \<longleftrightarrow>
     distinct (map fst objs) \<and>
     (\<forall>n d. map_of objs n = Some d \<longrightarrow> GCS_filed this (map_of objs) (n, d))"
proof (cases "distinct (map fst objs)")
  case False
  assume "bucket this = Some objs"
  with False show ?thesis by (simp add: GCS_consistent_def)
next
  case True
  assume b: "bucket this = Some objs"
  from True have "\<And>n d. (map_of objs n = Some d) = ((n, d) \<in> set objs)"
    by simp
  with True b show ?thesis
    by (auto simp: GCS_consistent_def list_all_iff)
qed

lemma GCS_filed_bucket [simp]:
  "GCS_filed (this\<lparr>bucket := x\<rparr>) = GCS_filed this"
  by (simp add: GCS_filed_def fun_eq_iff split: gcontent.splits document.splits)

lemma GCS_consistent_empty: "GCS_consistent emptyGCS"
  by (simp add: GCS_consistent_def emptyGCS_def)

lemma GCS_consistent_stored:
  assumes c: "GCS_consistent this" and b: "bucket this = Some objs"
    and hex: "hexKey pub" "hexKey priv" and ne: "pub \<noteq> priv"
    and fresh: "map_of objs (GCS_getMetadataPath this pub) = None"
               "map_of objs (GCS_getMetadataPath this priv) = None"
  shows "GCS_consistent (this\<lparr>bucket := Some (GCS_stored this pub priv now content name mime objs)\<rparr>)"
proof -
  let ?M = "map_of objs"
  let ?D = "Json (Document (GCS_record this pub priv now content name mime))"
  let ?objs' = "GCS_stored this pub priv now content name mime objs"
  let ?M' = "map_of ?objs'"
  let ?fp = "GCS_getFilePath this pub"
  let ?mpub = "GCS_getMetadataPath this pub"
  let ?mpriv = "GCS_getMetadataPath this priv"
  have M': "?M' = ?M(?fp \<mapsto> Blob content, ?mpub \<mapsto> ?D, ?mpriv \<mapsto> ?D)"
    by (simp add: GCS_stored_def AList.update_conv')
  have pp: "?mpub \<noteq> ?mpriv" using ne by (simp add: GCS_getMetadataPath_def)
  have fpm: "\<And>k. ?fp \<noteq> GCS_getMetadataPath this k"
    using GCS_getFilePath_not_metadata [OF hex(1)] by simp
  from c b have d: "distinct (map fst objs)"
    and old: "\<And>n d. ?M n = Some d \<Longrightarrow> GCS_filed this ?M (n, d)"
    by (simp_all add: GCS_consistent_alt)
  have d': "distinct (map fst ?objs')"
    using d by (simp add: GCS_stored_def AList.distinct_update)
  have new: "GCS_filed this ?M' (n, dd)" if h: "?M' n = Some dd" for n dd
  proof (cases "n = ?mpriv \<or> n = ?mpub")
    case True
    with h pp have "dd = ?D" by (auto simp: M' split: if_splits)
    with True pp hex ne show ?thesis
      by (auto simp: GCS_filed_def M')
  next
    case False
    show ?thesis
    proof (cases "n = ?fp")
      case True
      with h False have "dd = Blob content" by (simp add: M')
      then show ?thesis by (simp add: GCS_filed_def)
    next
      case nf: False
      with h False have o: "?M n = Some dd" by (simp add: M')
      show ?thesis
      proof (cases dd)
        case (Blob bb)
        then show ?thesis by (simp add: GCS_filed_def)
      next
        case (Json doc)
        show ?thesis
        proof (cases doc)
          case Unparseable
          with Json show ?thesis by (simp add: GCS_filed_def)
        next
          case (Document m)
          with Json old [OF o] have f: "GCS_filed this ?M (n, Json (Document m))" by simp
          then have a1: "?M (GCS_getMetadataPath this (publicKey m)) = Some (Json (Document m))"
            and a2: "?M (GCS_getMetadataPath this (privateKey m)) = Some (Json (Document m))"
            by (simp_all add: GCS_filed_def)
          from a1 fresh have "GCS_getMetadataPath this (publicKey m) \<noteq> ?mpub"
            "GCS_getMetadataPath this (publicKey m) \<noteq> ?mpriv" by auto
          moreover from a2 fresh have "GCS_getMetadataPath this (privateKey m) \<noteq> ?mpub"
            "GCS_getMetadataPath this (privateKey m) \<noteq> ?mpriv" by auto
          moreover have "GCS_getMetadataPath this (publicKey m) \<noteq> ?fp"
            "GCS_getMetadataPath this (privateKey m) \<noteq> ?fp"
            using fpm [of "publicKey m"] fpm [of "privateKey m"] by simp_all
          ultimately show ?thesis
            using f Document Json by (simp add: GCS_filed_def M')
        qed
      qed
    qed
  qed
  have b': "bucket (this\<lparr>bucket := Some ?objs'\<rparr>) = Some ?objs'" by simp
  from d' new show ?thesis by (simp add: GCS_consistent_alt [OF b'])
qed

section \<open>Downloads and deletions keep the invariant\<close>

lemma Local_consistent_names:
  assumes c: "Local_consistent fs"
    and m: "map_of (metadataFolder fs) (Local_getMetadataPath (privateKey m)) = Some (Document m)"
    and o: "map_of (metadataFolder fs) n = Some (Document m2)"
    and n: "n \<noteq> Local_getMetadataPath (publicKey m)" "n \<noteq> Local_getMetadataPath (privateKey m)"
  shows "Local_getMetadataPath (publicKey m2) \<noteq> Local_getMetadataPath (publicKey m)"
    "Local_getMetadataPath (publicKey m2) \<noteq> Local_getMetadataPath (privateKey m)"
    "Local_getMetadataPath (privateKey m2) \<noteq> Local_getMetadataPath (publicKey m)"
    "Local_getMetadataPath (privateKey m2) \<noteq> Local_getMetadataPath (privateKey m)"
proof -
  let ?M = "map_of (metadataFolder fs)"
  have e: "(Local_getMetadataPath (privateKey m), Document m) \<in> set (metadataFolder fs)"
    using m by (rule map_of_SomeD)
  have e2: "(n, Document m2) \<in> set (metadataFolder fs)"
    using o by (rule map_of_SomeD)
  note D = Local_consistentD [OF c e]
  note D2 = Local_consistentD [OF c e2]
  have neq: "m2 \<noteq> m" using D2(4) n by auto
  have inj: "\<And>a b. Local_getMetadataPath a = Local_getMetadataPath b \<Longrightarrow> a = b"
    by (simp add: Local_getMetadataPath_def)
  show "Local_getMetadataPath (publicKey m2) \<noteq> Local_getMetadataPath (publicKey m)"
  proof
    assume "Local_getMetadataPath (publicKey m2) = Local_getMetadataPath (publicKey m)"
    with D(5) D2(5) have "Some (Document m2) = Some (Document m)" by (simp only:)
    with neq show False by simp
  qed
  show "Local_getMetadataPath (publicKey m2) \<noteq> Local_getMetadataPath (privateKey m)"
  proof
    assume "Local_getMetadataPath (publicKey m2) = Local_getMetadataPath (privateKey m)"
    with D(6) D2(5) have "Some (Document m2) = Some (Document m)" by (simp only:)
    with neq show False by simp
  qed
  show "Local_getMetadataPath (privateKey m2) \<noteq> Local_getMetadataPath (publicKey m)"
  proof
    assume "Local_getMetadataPath (privateKey m2) = Local_getMetadataPath (publicKey m)"
    with D(5) D2(6) have "Some (Document m2) = Some (Document m)" by (simp only:)
    with neq show False by simp
  qed
  show "Local_getMetadataPath (privateKey m2) \<noteq> Local_getMetadataPath (privateKey m)"
  proof
    assume "Local_getMetadataPath (privateKey m2) = Local_getMetadataPath (privateKey m)"
    with D(6) D2(6) have "Some (Document m2) = Some (Document m)" by (simp only:)
    with neq show False by simp
  qed
qed

text \<open>A completed download with the public key keeps the metadata folder consistent.\<close>

lemma Local_consistent_download:
  assumes c: "Local_consistent fs"
    and m: "readMetadata (Local_getMetadataPath (publicKey m)) fs = Inr (Document m)"
    and dl: "Local_downloadFile unw now (publicKey m) fs = (Inr res, fs')"
  shows "Local_consistent fs'"
proof -
  let ?M = "map_of (metadataFolder fs)"
  let ?pub = "Local_getMetadataPath (publicKey m)"
  let ?priv = "Local_getMetadataPath (privateKey m)"
  let ?D = "Document (m\<lparr>lastAccessed := Some now\<rparr>)"
  from m have mp: "?M ?pub = Some (Document m)"
    by (simp add: readMetadata_def split: option.splits)
  then have e: "(?pub, Document m) \<in> set (metadataFolder fs)" by (rule map_of_SomeD)
  note D = Local_consistentD [OF c e]
  from dl mp have fs': "fs' = fs\<lparr>metadataFolder :=
      AList.update ?priv ?D (AList.update ?pub ?D (metadataFolder fs))\<rparr>"
    by (simp add: Local_downloadFile_eq split: option.splits if_splits)
  have M': "map_of (metadataFolder fs') = ?M(?pub \<mapsto> ?D, ?priv \<mapsto> ?D)"
    by (simp add: fs' AList.update_conv')
  have pp: "?pub \<noteq> ?priv" using D(3) by (simp add: Local_getMetadataPath_def)
  from c have d: "distinct (map fst (metadataFolder fs))"
    and old: "\<And>n d. ?M n = Some d \<Longrightarrow> Local_filed ?M (n, d)"
    by (simp_all add: Local_consistent_alt)
  have d': "distinct (map fst (metadataFolder fs'))"
    using d by (simp add: fs' AList.distinct_update)
  have new: "Local_filed (map_of (metadataFolder fs')) (n, dd)"
    if h: "map_of (metadataFolder fs') n = Some dd" for n dd
  proof (cases "n = ?priv \<or> n = ?pub")
    case True
    with h pp have "dd = ?D" by (auto simp: M' split: if_splits)
    with True pp D(1,2,3) show ?thesis
      by (auto simp: Local_filed_def M')
  next
    case False
    with h have o: "?M n = Some dd" by (simp add: M')
    show ?thesis
    proof (cases dd)
      case Unparseable
      then show ?thesis by (simp add: Local_filed_def)
    next
      case (Document m2)
      with old [OF o] have f: "Local_filed ?M (n, Document m2)" by simp
      from o Document have o2: "?M n = Some (Document m2)" by simp
      from False have nn: "n \<noteq> ?pub" "n \<noteq> ?priv" by auto
      note N = Local_consistent_names [OF c D(6) o2 nn]
      show ?thesis
        using f Document N by (simp add: Local_filed_def M')
    qed
  qed
  from d' new show ?thesis by (simp add: Local_consistent_alt)
qed

text \<open>Deleting with the private key keeps the metadata folder consistent.\<close>

lemma Local_consistent_delete:
  assumes c: "Local_consistent fs"
    and m: "readMetadata (Local_getMetadataPath (privateKey m)) fs = Inr (Document m)"
  shows "Local_consistent (snd (Local_deleteFile (privateKey m) fs))"
proof -
  let ?M = "map_of (metadataFolder fs)"
  let ?pub = "Local_getMetadataPath (publicKey m)"
  let ?priv = "Local_getMetadataPath (privateKey m)"
  let ?fs' = "snd (Local_deleteFile (privateKey m) fs)"
  from m have mp: "?M ?priv = Some (Document m)"
    by (simp add: readMetadata_def split: option.splits)
  have mf: "metadataFolder ?fs' = AList.delete ?priv (AList.delete ?pub (metadataFolder fs))"
    by (simp add: Local_deleteFile_eq mp)
  have M': "map_of (metadataFolder ?fs') = ?M(?pub := None, ?priv := None)"
    by (simp add: mf AList.delete_conv')
  from c have d: "distinct (map fst (metadataFolder fs))"
    and old: "\<And>n d. ?M n = Some d \<Longrightarrow> Local_filed ?M (n, d)"
    by (simp_all add: Local_consistent_alt)
  have d': "distinct (map fst (metadataFolder ?fs'))"
    using d by (simp add: mf AList.distinct_delete)
  have new: "Local_filed (map_of (metadataFolder ?fs')) (n, dd)"
    if h: "map_of (metadataFolder ?fs') n = Some dd" for n dd
  proof -
    from h have nn: "n \<noteq> ?pub" "n \<noteq> ?priv" and o: "?M n = Some dd"
      by (auto simp: M' split: if_splits)
    show ?thesis
    proof (cases dd)
      case Unparseable
      then show ?thesis by (simp add: Local_filed_def)
    next
      case (Document m2)
      with old [OF o] have f: "Local_filed ?M (n, Document m2)" by simp
      from o Document have o2: "?M n = Some (Document m2)" by simp
      note N = Local_consistent_names [OF c mp o2 nn]
      show ?thesis
        using f Document N by (simp add: Local_filed_def M')
    qed
  qed
  from d' new show ?thesis by (simp add: Local_consistent_alt)
qed

lemma GCS_consistent_names:
  assumes c: "GCS_consistent this" and b: "bucket this = Some objs"
    and m: "map_of objs (GCS_getMetadataPath this (privateKey m)) = Some (Json (Document m))"
    and o: "map_of objs n = Some (Json (Document m2))"
    and n: "n \<noteq> GCS_getMetadataPath this (publicKey m)"
           "n \<noteq> GCS_getMetadataPath this (privateKey m)"
  shows "GCS_getMetadataPath this (publicKey m2) \<noteq> GCS_getMetadataPath this (publicKey m)"
    "GCS_getMetadataPath this (publicKey m2) \<noteq> GCS_getMetadataPath this (privateKey m)"
    "GCS_getMetadataPath this (privateKey m2) \<noteq> GCS_getMetadataPath this (publicKey m)"
    "GCS_getMetadataPath this (privateKey m2) \<noteq> GCS_getMetadataPath this (privateKey m)"
    "GCS_getMetadataPath this (publicKey m2) \<noteq> GCS_getFilePath this (publicKey m)"
    "GCS_getMetadataPath this (privateKey m2) \<noteq> GCS_getFilePath this (publicKey m)"
proof -
  have e: "(GCS_getMetadataPath this (privateKey m), Json (Document m)) \<in> set objs"
    using m by (rule map_of_SomeD)
  have e2: "(n, Json (Document m2)) \<in> set objs"
    using o by (rule map_of_SomeD)
  note D = GCS_consistentD [OF c b e]
  note D2 = GCS_consistentD [OF c b e2]
  have neq: "m2 \<noteq> m" using D2(4) n by auto
  show "GCS_getMetadataPath this (publicKey m2) \<noteq> GCS_getMetadataPath this (publicKey m)"
  proof
    assume "GCS_getMetadataPath this (publicKey m2) = GCS_getMetadataPath this (publicKey m)"
    with D(5) D2(5) have "Some (Json (Document m2)) = Some (Json (Document m))" by (simp only:)
    with neq show False by simp
  qed
  show "GCS_getMetadataPath this (publicKey m2) \<noteq> GCS_getMetadataPath this (privateKey m)"
  proof
    assume "GCS_getMetadataPath this (publicKey m2) = GCS_getMetadataPath this (privateKey m)"
    with D(6) D2(5) have "Some (Json (Document m2)) = Some (Json (Document m))" by (simp only:)
    with neq show False by simp
  qed
  show "GCS_getMetadataPath this (privateKey m2) \<noteq> GCS_getMetadataPath this (publicKey m)"
  proof
    assume "GCS_getMetadataPath this (privateKey m2) = GCS_getMetadataPath this (publicKey m)"
    with D(5) D2(6) have "Some (Json (Document m2)) = Some (Json (Document m))" by (simp only:)
    with neq show False by simp
  qed
  show "GCS_getMetadataPath this (privateKey m2) \<noteq> GCS_getMetadataPath this (privateKey m)"
  proof
    assume "GCS_getMetadataPath this (privateKey m2) = GCS_getMetadataPath this (privateKey m)"
    with D(6) D2(6) have "Some (Json (Document m2)) = Some (Json (Document m))" by (simp only:)
    with neq show False by simp
  qed
  show "GCS_getMetadataPath this (publicKey m2) \<noteq> GCS_getFilePath this (publicKey m)"
    using GCS_getFilePath_not_metadata [OF D(1), of this "publicKey m2"] by simp
  show "GCS_getMetadataPath this (privateKey m2) \<noteq> GCS_getFilePath this (publicKey m)"
    using GCS_getFilePath_not_metadata [OF D(1), of this "privateKey m2"] by simp
qed

text \<open>A completed download with the public key keeps the bucket consistent.\<close>

lemma GCS_consistent_download:
  assumes c: "GCS_consistent this" and b: "bucket this = Some objs"
    and m: "map_of objs (GCS_getMetadataPath this (publicKey m)) = Some (Json (Document m))"
    and dl: "GCS_downloadFile unw now (publicKey m) this = (Inr res, this')"
  shows "GCS_consistent this'"
proof -
  let ?M = "map_of objs"
  let ?pub = "GCS_getMetadataPath this (publicKey m)"
  let ?priv = "GCS_getMetadataPath this (privateKey m)"
  let ?D = "Json (Document (m\<lparr>lastAccessed := Some now\<rparr>))"
  let ?objs' = "AList.update ?priv ?D (AList.update ?pub ?D objs)"
  from m have e: "(?pub, Json (Document m)) \<in> set objs" by (rule map_of_SomeD)
  note D = GCS_consistentD [OF c b e]
  from dl m have t: "this' = this\<lparr>bucket := Some ?objs'\<rparr>"
    by (simp add: GCS_downloadFile_eq [OF b] split: option.splits if_splits)
  have M': "map_of ?objs' = ?M(?pub \<mapsto> ?D, ?priv \<mapsto> ?D)"
    by (simp add: AList.update_conv')
  have pp: "?pub \<noteq> ?priv" using D(3) by (simp add: GCS_getMetadataPath_def)
  from c b have d: "distinct (map fst objs)"
    and old: "\<And>n d. ?M n = Some d \<Longrightarrow> GCS_filed this ?M (n, d)"
    by (simp_all add: GCS_consistent_alt)
  have d': "distinct (map fst ?objs')"
    using d by (simp add: AList.distinct_update)
  have new: "GCS_filed this (map_of ?objs') (n, dd)" if h: "map_of ?objs' n = Some dd" for n dd
  proof (cases "n = ?priv \<or> n = ?pub")
    case True
    with h pp have "dd = ?D" by (auto simp: M' split: if_splits)
    with True pp D(1,2,3,7) show ?thesis
      by (auto simp: GCS_filed_def M')
  next
    case False
    with h have o: "?M n = Some dd" by (simp add: M')
    show ?thesis
    proof (cases dd)
      case (Blob bb)
      then show ?thesis by (simp add: GCS_filed_def)
    next
      case (Json doc)
      show ?thesis
      proof (cases doc)
        case Unparseable
        with Json show ?thesis by (simp add: GCS_filed_def)
      next
        case (Document m2)
        with Json old [OF o] have f: "GCS_filed this ?M (n, Json (Document m2))" by simp
        from o Json Document have o2: "?M n = Some (Json (Document m2))" by simp
        from False have nn: "n \<noteq> ?pub" "n \<noteq> ?priv" by auto
        note N = GCS_consistent_names [OF c b D(6) o2 nn]
        show ?thesis
          using f Json Document N by (simp add: GCS_filed_def M')
      qed
    qed
  qed
  have b': "bucket this' = Some ?objs'" by (simp add: t)
  have "GCS_consistent (this\<lparr>bucket := Some ?objs'\<rparr>)"
    using d' new by (simp add: GCS_consistent_alt [of "this\<lparr>bucket := Some ?objs'\<rparr>" ?objs'])
  then show ?thesis by (simp add: t)
qed

text \<open>Deleting with the private key keeps the bucket consistent.\<close>

lemma GCS_consistent_delete:
  assumes c: "GCS_consistent this" and b: "bucket this = Some objs"
    and m: "map_of objs (GCS_getMetadataPath this (privateKey m)) = Some (Json (Document m))"
  shows "GCS_consistent (snd (GCS_deleteFile (privateKey m) this))"
proof -
  let ?M = "map_of objs"
  let ?pub = "GCS_getMetadataPath this (publicKey m)"
  let ?priv = "GCS_getMetadataPath this (privateKey m)"
  let ?fp = "GCS_getFilePath this (publicKey m)"
  let ?objs' = "AList.delete ?priv (AList.delete ?pub (AList.delete ?fp objs))"
  from m have e: "(?priv, Json (Document m)) \<in> set objs" by (rule map_of_SomeD)
  note D = GCS_consistentD [OF c b e]
  have t: "snd (GCS_deleteFile (privateKey m) this) = this\<lparr>bucket := Some ?objs'\<rparr>"
    by (simp add: GCS_deleteFile_eq [OF b] m D(7) GCS_getFilePath_nonempty)
  have M': "map_of ?objs' = ?M(?fp := None, ?pub := None, ?priv := None)"
    by (simp add: AList.delete_conv')
  from c b have d: "distinct (map fst objs)"
    and old: "\<And>n d. ?M n = Some d \<Longrightarrow> GCS_filed this ?M (n, d)"
    by (simp_all add: GCS_consistent_alt)
  have d': "distinct (map fst ?objs')"
    using d by (simp add: AList.distinct_delete)
  have new: "GCS_filed this (map_of ?objs') (n, dd)" if h: "map_of ?objs' n = Some dd" for n dd
  proof -
    from h have nn: "n \<noteq> ?pub" "n \<noteq> ?priv" and o: "?M n = Some dd"
      by (auto simp: M' split: if_splits)
    show ?thesis
    proof (cases dd)
      case (Blob bb)
      then show ?thesis by (simp add: GCS_filed_def)
    next
      case (Json doc)
      show ?thesis
      proof (cases doc)
        case Unparseable
        with Json show ?thesis by (simp add: GCS_filed_def)
      next
        case (Document m2)
        with Json old [OF o] have f: "GCS_filed this ?M (n, Json (Document m2))" by simp
        from o Json Document have o2: "?M n = Some (Json (Document m2))" by simp
        note N = GCS_consistent_names [OF c b m o2 nn]
        show ?thesis
          using f Json Document N by (simp add: GCS_filed_def M')
      qed
    qed
  qed
  have "GCS_consistent (this\<lparr>bucket := Some ?objs'\<rparr>)"
    using d' new by (simp add: GCS_consistent_alt [of "this\<lparr>bucket := Some ?objs'\<rparr>" ?objs'])
  then show ?thesis by (simp add: t)
qed

section \<open>What the inactive-file scan returns\<close>

lemma Local_inspect_hit:
  assumes c: "Local_consistent fs" and ne: "Local_inspect cutoff fs name \<noteq> []"
  shows "\<exists>m. readMetadata name fs = Inr (Document m) \<and>
              name = Local_getMetadataPath (privateKey m) \<and>
              Local_inspect cutoff fs name = [privateKey m]"
proof (cases "map_of (metadataFolder fs) name")
  case None
  then have r: "readMetadata name fs = Inl (Error ''ENOENT'')" by (simp add: readMetadata_def)
  from ne show ?thesis by (simp add: Local_inspect_def r split: if_splits)
next
  case (Some doc)
  then have e: "(name, doc) \<in> set (metadataFolder fs)" by (rule map_of_SomeD)
  show ?thesis
  proof (cases doc)
    case Unparseable
    with Some have r: "readMetadata name fs = Inr Unparseable" by (simp add: readMetadata_def)
    from ne show ?thesis by (simp add: Local_inspect_def JSON_parse_def r split: if_splits)
  next
    case (Document m)
    with e have e': "(name, Document m) \<in> set (metadataFolder fs)" by simp
    from ne have "name = Local_getMetadataPath (privateKey m)"
      "Local_inspect cutoff fs name = [privateKey m]"
      by (simp_all add: Local_inspect_Document [OF c e'] split: if_splits)
    with Some Document show ?thesis by (simp add: readMetadata_def)
  qed
qed

lemma GCS_inspect_hit:
  assumes c: "GCS_consistent this" and b: "bucket this = Some objs"
    and e: "obj \<in> set objs" and ne: "GCS_inspect cutoff this obj \<noteq> []"
  shows "\<exists>m. obj = (GCS_getMetadataPath this (privateKey m), Json (Document m)) \<and>
              GCS_inspect cutoff this obj = [privateKey m]"
proof -
  obtain name content where f: "obj = (name, content)" by (cases obj)
  show ?thesis
  proof (cases content)
    case (Blob bb)
    with f ne show ?thesis by (simp add: GCS_inspect_other)
  next
    case (Json doc)
    show ?thesis
    proof (cases doc)
      case Unparseable
      with Json f ne show ?thesis by (simp add: GCS_inspect_other)
    next
      case (Document m)
      with Json f e have e': "(name, Json (Document m)) \<in> set objs" by simp
      from ne f Json Document have "name = GCS_getMetadataPath this (privateKey m)"
        "GCS_inspect cutoff this (name, Json (Document m)) = [privateKey m]"
        by (simp_all add: GCS_inspect_Document [OF c b e'] split: if_splits)
      with f Json Document show ?thesis by simp
    qed
  qed
qed

text \<open>
  C7. In a store whose metadata documents are filed consistently (each record under its
  public and its private key, as \<^verbatim>\<open>uploadFile\<close> writes them), on both providers:
  a stored object's private key is in the result of \<^verbatim>\<open>getInactiveFiles(cutoff)\<close> exactly
  when its reference date (\<^verbatim>\<open>lastAccessed\<close> if set, otherwise \<^verbatim>\<open>createdAt\<close>) is strictly
  before the cutoff, and the result holds nothing but private keys of stored objects.
\<close>

theorem getInactiveFiles_exact:
  "(Local_consistent fs \<longrightarrow>
      (\<forall>m \<in> set (Local_records fs).
          (privateKey m \<in> set (Local_getInactiveFiles cutoff fs)) = (referenceDate m < cutoff))
      \<and> set (Local_getInactiveFiles cutoff fs) \<subseteq> privateKey ` set (Local_records fs))
   \<and> (GCS_consistent this \<longrightarrow>
      (\<exists>keys. GCS_getInactiveFiles cutoff this = Inr keys
         \<and> (\<forall>m \<in> set (GCS_records this).
               (privateKey m \<in> set keys) = (referenceDate m < cutoff))
         \<and> set keys \<subseteq> privateKey ` set (GCS_records this)))"
proof (intro conjI impI)
  assume c: "Local_consistent fs"
  have s: "set (Local_getInactiveFiles cutoff fs) =
             privateKey ` {m \<in> set (Local_records fs). referenceDate m < cutoff}"
    by (rule set_Local_getInactiveFiles [OF c])
  show "\<forall>m \<in> set (Local_records fs).
          (privateKey m \<in> set (Local_getInactiveFiles cutoff fs)) = (referenceDate m < cutoff)"
  proof
    fix m assume m: "m \<in> set (Local_records fs)"
    show "(privateKey m \<in> set (Local_getInactiveFiles cutoff fs)) = (referenceDate m < cutoff)"
    proof
      assume "privateKey m \<in> set (Local_getInactiveFiles cutoff fs)"
      with s obtain m' where m': "m' \<in> set (Local_records fs)" "referenceDate m' < cutoff"
        "privateKey m = privateKey m'" by auto
      with m Local_privateKey_inj [OF c] have "m = m'" by (auto dest: inj_onD)
      with m' show "referenceDate m < cutoff" by simp
    next
      assume "referenceDate m < cutoff"
      with m s show "privateKey m \<in> set (Local_getInactiveFiles cutoff fs)" by blast
    qed
  qed
  from s show "set (Local_getInactiveFiles cutoff fs) \<subseteq> privateKey ` set (Local_records fs)"
    by blast
next
  assume c: "GCS_consistent this"
  then obtain objs where b: "bucket this = Some objs"
    by (auto simp: GCS_consistent_def split: option.splits)
  from set_GCS_getInactiveFiles [OF c b, of cutoff] obtain keys where
    r: "GCS_getInactiveFiles cutoff this = Inr keys"
    and s: "set keys = privateKey ` {m \<in> set (GCS_records this). referenceDate m < cutoff}"
    by blast
  have "\<forall>m \<in> set (GCS_records this). (privateKey m \<in> set keys) = (referenceDate m < cutoff)"
  proof
    fix m assume m: "m \<in> set (GCS_records this)"
    show "(privateKey m \<in> set keys) = (referenceDate m < cutoff)"
    proof
      assume "privateKey m \<in> set keys"
      with s obtain m' where m': "m' \<in> set (GCS_records this)" "referenceDate m' < cutoff"
        "privateKey m = privateKey m'" by auto
      with m GCS_privateKey_inj [OF c] have "m = m'" by (auto dest: inj_onD)
      with m' show "referenceDate m < cutoff" by simp
    next
      assume "referenceDate m < cutoff"
      with m s show "privateKey m \<in> set keys" by blast
    qed
  qed
  moreover from s have "set keys \<subseteq> privateKey ` set (GCS_records this)" by blast
  ultimately show "\<exists>keys. GCS_getInactiveFiles cutoff this = Inr keys
         \<and> (\<forall>m \<in> set (GCS_records this).
               (privateKey m \<in> set keys) = (referenceDate m < cutoff))
         \<and> set keys \<subseteq> privateKey ` set (GCS_records this)"
    using r by blast
qed

lemma twoLocal_consistent: "Local_consistent twoLocal"
  by code_simp

lemma twoGCS_consistent: "GCS_consistent twoGCS"
  by code_simp

lemma twoLocal_scan: "Local_getInactiveFiles 5500 twoLocal = [privB]"
  by code_simp

lemma twoGCS_scan: "GCS_getInactiveFiles 5500 twoGCS = Inr [privB]"
  by code_simp

theorem getInactiveFiles_exact_witness:
  "Local_consistent twoLocal
   \<and> map (\<lambda>m. (privateKey m, referenceDate m)) (Local_records twoLocal)
       = [(privA, 6000), (privA, 6000), (privB, 5000), (privB, 5000)]
   \<and> Local_getInactiveFiles 5500 twoLocal = [privB]
   \<and> GCS_consistent twoGCS
   \<and> map (\<lambda>m. (privateKey m, referenceDate m)) (GCS_records twoGCS)
       = [(privA, 6000), (privA, 6000), (privB, 5000), (privB, 5000)]
   \<and> GCS_getInactiveFiles 5500 twoGCS = Inr [privB]"
proof -
  have a: "map (\<lambda>m. (privateKey m, referenceDate m)) (Local_records twoLocal)
             = [(privA, 6000), (privA, 6000), (privB, 5000), (privB, 5000)]"
    by code_simp
  have b: "map (\<lambda>m. (privateKey m, referenceDate m)) (GCS_records twoGCS)
             = [(privA, 6000), (privA, 6000), (privB, 5000), (privB, 5000)]"
    by code_simp
  from getInactiveFiles_exact [of twoLocal 5500 twoGCS]
       twoLocal_consistent twoGCS_consistent twoLocal_scan twoGCS_scan a b
  show ?thesis by simp
qed

text \<open>
  C10. In a consistently filed store every record is kept in two metadata documents, one
  under each key. On both providers the scan turns a document into a result only when the
  document is filed under its record's private key, and the result is then that private
  key; the result of a scan has no key twice, distinct stored objects have distinct private
  keys, and no stored object's public key is in the result.
\<close>

theorem getInactiveFiles_private_keys_once:
  "(Local_consistent fs \<longrightarrow>
      (\<forall>m \<in> set (Local_records fs).
          readMetadata (Local_getMetadataPath (publicKey m)) fs = Inr (Document m)
          \<and> readMetadata (Local_getMetadataPath (privateKey m)) fs = Inr (Document m))
      \<and> (\<forall>name. Local_inspect cutoff fs name \<noteq> [] \<longrightarrow>
            (\<exists>m. readMetadata name fs = Inr (Document m)
                 \<and> name = Local_getMetadataPath (privateKey m)
                 \<and> Local_inspect cutoff fs name = [privateKey m]))
      \<and> distinct (Local_getInactiveFiles cutoff fs)
      \<and> inj_on privateKey (set (Local_records fs))
      \<and> (\<forall>m \<in> set (Local_records fs). publicKey m \<notin> set (Local_getInactiveFiles cutoff fs)))
   \<and> (GCS_consistent this \<longrightarrow>
      (\<exists>objs keys. bucket this = Some objs \<and> GCS_getInactiveFiles cutoff this = Inr keys
         \<and> (\<forall>m \<in> set (GCS_records this).
               map_of objs (GCS_getMetadataPath this (publicKey m)) = Some (Json (Document m))
               \<and> map_of objs (GCS_getMetadataPath this (privateKey m)) = Some (Json (Document m)))
         \<and> (\<forall>obj \<in> set objs. GCS_inspect cutoff this obj \<noteq> [] \<longrightarrow>
               (\<exists>m. obj = (GCS_getMetadataPath this (privateKey m), Json (Document m))
                    \<and> GCS_inspect cutoff this obj = [privateKey m]))
         \<and> distinct keys
         \<and> inj_on privateKey (set (GCS_records this))
         \<and> (\<forall>m \<in> set (GCS_records this). publicKey m \<notin> set keys)))"
proof (intro conjI impI)
  assume c: "Local_consistent fs"
  show "\<forall>m \<in> set (Local_records fs).
          readMetadata (Local_getMetadataPath (publicKey m)) fs = Inr (Document m)
          \<and> readMetadata (Local_getMetadataPath (privateKey m)) fs = Inr (Document m)"
  proof
    fix m assume "m \<in> set (Local_records fs)"
    then obtain n where e: "(n, Document m) \<in> set (metadataFolder fs)"
      by (auto simp: Local_records_iff)
    from Local_consistentD(5) [OF c e] Local_consistentD(6) [OF c e]
    show "readMetadata (Local_getMetadataPath (publicKey m)) fs = Inr (Document m)
          \<and> readMetadata (Local_getMetadataPath (privateKey m)) fs = Inr (Document m)"
      by (simp add: readMetadata_def)
  qed
  show "\<forall>name. Local_inspect cutoff fs name \<noteq> [] \<longrightarrow>
            (\<exists>m. readMetadata name fs = Inr (Document m)
                 \<and> name = Local_getMetadataPath (privateKey m)
                 \<and> Local_inspect cutoff fs name = [privateKey m])"
    using Local_inspect_hit [OF c] by blast
  show "distinct (Local_getInactiveFiles cutoff fs)"
    by (rule distinct_Local_getInactiveFiles [OF c])
  show "inj_on privateKey (set (Local_records fs))"
    by (rule Local_privateKey_inj [OF c])
  show "\<forall>m \<in> set (Local_records fs). publicKey m \<notin> set (Local_getInactiveFiles cutoff fs)"
    using Local_publicKey_not_listed [OF c] by blast
next
  assume c: "GCS_consistent this"
  then obtain objs where b: "bucket this = Some objs"
    by (auto simp: GCS_consistent_def split: option.splits)
  from distinct_GCS_getInactiveFiles [OF c b, of cutoff] obtain keys where
    r: "GCS_getInactiveFiles cutoff this = Inr keys" and d: "distinct keys" by blast
  have filed: "\<forall>m \<in> set (GCS_records this).
               map_of objs (GCS_getMetadataPath this (publicKey m)) = Some (Json (Document m))
               \<and> map_of objs (GCS_getMetadataPath this (privateKey m)) = Some (Json (Document m))"
  proof
    fix m assume "m \<in> set (GCS_records this)"
    then obtain n where e: "(n, Json (Document m)) \<in> set objs"
      by (auto simp: GCS_records_iff [OF b])
    from GCS_consistentD(5) [OF c b e] GCS_consistentD(6) [OF c b e]
    show "map_of objs (GCS_getMetadataPath this (publicKey m)) = Some (Json (Document m))
          \<and> map_of objs (GCS_getMetadataPath this (privateKey m)) = Some (Json (Document m))"
      by simp
  qed
  have hits: "\<forall>obj \<in> set objs. GCS_inspect cutoff this obj \<noteq> [] \<longrightarrow>
               (\<exists>m. obj = (GCS_getMetadataPath this (privateKey m), Json (Document m))
                    \<and> GCS_inspect cutoff this obj = [privateKey m])"
    using GCS_inspect_hit [OF c b] by blast
  have pub: "\<forall>m \<in> set (GCS_records this). publicKey m \<notin> set keys"
    using GCS_publicKey_not_listed [OF c r] by blast
  from b r filed hits d GCS_privateKey_inj [OF c] pub
  show "\<exists>objs keys. bucket this = Some objs \<and> GCS_getInactiveFiles cutoff this = Inr keys
         \<and> (\<forall>m \<in> set (GCS_records this).
               map_of objs (GCS_getMetadataPath this (publicKey m)) = Some (Json (Document m))
               \<and> map_of objs (GCS_getMetadataPath this (privateKey m)) = Some (Json (Document m)))
         \<and> (\<forall>obj \<in> set objs. GCS_inspect cutoff this obj \<noteq> [] \<longrightarrow>
               (\<exists>m. obj = (GCS_getMetadataPath this (privateKey m), Json (Document m))
                    \<and> GCS_inspect cutoff this obj = [privateKey m]))
         \<and> distinct keys
         \<and> inj_on privateKey (set (GCS_records this))
         \<and> (\<forall>m \<in> set (GCS_records this). publicKey m \<notin> set keys)"
    by blast
qed

theorem getInactiveFiles_private_keys_once_witness:
  "Local_consistent twoLocal
   \<and> map fst (metadataFolder twoLocal)
       = [Local_getMetadataPath pubA, Local_getMetadataPath privA,
          Local_getMetadataPath pubB, Local_getMetadataPath privB]
   \<and> Local_getInactiveFiles 7000 twoLocal = [privA, privB]
   \<and> GCS_consistent twoGCS
   \<and> GCS_getInactiveFiles 7000 twoGCS = Inr [privA, privB]"
proof -
  have a: "Local_getInactiveFiles 7000 twoLocal = [privA, privB]" by code_simp
  have b: "GCS_getInactiveFiles 7000 twoGCS = Inr [privA, privB]" by code_simp
  have n: "map fst (metadataFolder twoLocal)
       = [Local_getMetadataPath pubA, Local_getMetadataPath privA,
          Local_getMetadataPath pubB, Local_getMetadataPath privB]" by code_simp
  from getInactiveFiles_private_keys_once [of twoLocal 7000 twoGCS]
       twoLocal_consistent twoGCS_consistent a b n
  show ?thesis by simp
qed

section \<open>The cleanup cycle\<close>

lemma cleanupLoop_outcomes:
  "cleanupLoop provider files c s =
     (c + actuallyDeleted (deletionOutcomes provider files s), afterDeletions provider files s)"
proof (induction files arbitrary: c s)
  case Nil
  show ?case by (simp add: actuallyDeleted_def afterDeletions_def)
next
  case (Cons f rest)
  obtain r s' where step: "deleteFile provider f s = (r, s')"
    by (cases "deleteFile provider f s")
  show ?case
  proof (cases r)
    case (Inl e)
    with step Cons show ?thesis
      by (simp add: actuallyDeleted_def afterDeletions_def)
  next
    case (Inr deleted)
    with step Cons show ?thesis
      by (cases deleted) (simp_all add: actuallyDeleted_def afterDeletions_def)
  qed
qed

lemma length_deletionOutcomes:
  "length (deletionOutcomes provider files s) = length files"
  by (induction files arbitrary: s) simp_all

text \<open>
  C8. When the cutoff is not a valid date, the cycle reports zero deletions and the provider
  is not called. Otherwise: when the enumeration rejects, the cycle reports zero deletions;
  when it resolves, \<^verbatim>\<open>deleteFile\<close> is called on every candidate in turn, whatever the
  earlier calls did (the state afterwards is the one after all the deletions, and there is
  one outcome per candidate), and the cycle returns the number of calls that resolved to
  \<^verbatim>\<open>true\<close>.
\<close>

theorem runCleanup_cycle:
  "(\<not> validDate (now - INACTIVITY_PERIOD_MS days)
       \<longrightarrow> runCleanup (Some provider) days now s = (0, s))
   \<and> (validDate (now - INACTIVITY_PERIOD_MS days) \<longrightarrow>
       (\<forall>e s'. getInactiveFiles provider (now - INACTIVITY_PERIOD_MS days) s = (Inl e, s')
          \<longrightarrow> runCleanup (Some provider) days now s = (0, s'))
       \<and> (\<forall>inactiveFiles s'.
            getInactiveFiles provider (now - INACTIVITY_PERIOD_MS days) s = (Inr inactiveFiles, s')
          \<longrightarrow> runCleanup (Some provider) days now s =
                (actuallyDeleted (deletionOutcomes provider inactiveFiles s'),
                 afterDeletions provider inactiveFiles s')
              \<and> length (deletionOutcomes provider inactiveFiles s') = length inactiveFiles))"
  by (simp add: runCleanup_def cleanupLoop_outcomes length_deletionOutcomes)

theorem runCleanup_cycle_witness:
  "runCleanup (Some (mockStorageProvider (Inl (Error ''Storage error'')) {}))
       None 1700000000000 [] = (0, [])
   \<and> runCleanup (Some (mockStorageProvider (Inr [''key1'', ''key2'', ''key3'']) {''key2''}))
       None 1700000000000 [] = (2, [''key1'', ''key2'', ''key3''])
   \<and> runCleanup (Some (mockStorageProvider (Inr [''key1'', ''key2'', ''key3'']) {''key2''}))
       (Some 200000000) 1700000000000 [] = (0, [])"
proof -
  have v: "validDate (1700000000000 - INACTIVITY_PERIOD_MS None)"
    by (simp add: validDate_def INACTIVITY_PERIOD_MS_def)
  have i: "\<not> validDate (1700000000000 - INACTIVITY_PERIOD_MS (Some 200000000))"
    by (simp add: validDate_def INACTIVITY_PERIOD_MS_def)
  from runCleanup_cycle [of 1700000000000 None
          "mockStorageProvider (Inl (Error ''Storage error'')) {}" "[]"]
       runCleanup_cycle [of 1700000000000 None
          "mockStorageProvider (Inr [''key1'', ''key2'', ''key3'']) {''key2''}" "[]"]
       runCleanup_cycle [of 1700000000000 "Some 200000000"
          "mockStorageProvider (Inr [''key1'', ''key2'', ''key3'']) {''key2''}" "[]"]
       v i
  show ?thesis
    by (simp add: mockStorageProvider_def actuallyDeleted_def afterDeletions_def)
qed

section \<open>Admission checks of the usage limiter\<close>

lemma clientIp_req_file: "clientIp (req\<lparr>req_file := f\<rparr>) = clientIp req"
  by (simp add: clientIp_def split: option.splits)

text \<open>
  C9. The upload check answers 429 exactly when the origin's uploaded bytes of the day, as
  \<^verbatim>\<open>getUsage\<close> reports them, have reached \<^verbatim>\<open>UPLOAD_LIMIT\<close>, and lets the request through
  otherwise, whatever file the request carries; the download check does the same with the
  downloaded bytes and \<^verbatim>\<open>DOWNLOAD_LIMIT\<close>.
\<close>

theorem admission_checks:
  "fst (uploadLimiter env today (req\<lparr>req_file := f\<rparr>) store) =
     (if UPLOAD_LIMIT env \<le> fst (fst (getUsage (clientIp req) today store)) then Status429 else Next)
   \<and> fst (downloadLimiter env' today req store) =
     (if DOWNLOAD_LIMIT env' \<le> snd (fst (getUsage (clientIp req) today store)) then Status429 else Next)"
  by (simp add: uploadLimiter_def downloadLimiter_def getUsage_def clientIp_req_file
        split: prod.splits)

theorem admission_checks_witness:
  "fst (uploadLimiter None ''2024-0-17'' (sampleRequest\<lparr>req_file := Some sampleFile\<rparr>) Map.empty)
     = Next
   \<and> fst (uploadLimiter None ''2024-0-17'' (sampleRequest\<lparr>req_file := Some sampleFile\<rparr>)
          [getUsageKey ''192.168.1.1'' ''2024-0-17''
             \<mapsto> \<lparr>upload = 104857599, download = 0, lastReset = ''2024-0-17''\<rparr>])
     = Next
   \<and> fst (uploadLimiter None ''2024-0-17'' (sampleRequest\<lparr>req_file := Some sampleFile\<rparr>)
          [getUsageKey ''192.168.1.1'' ''2024-0-17''
             \<mapsto> \<lparr>upload = 104857600, download = 0, lastReset = ''2024-0-17''\<rparr>])
     = Status429
   \<and> fst (downloadLimiter None ''2024-0-17'' sampleRequest
          [getUsageKey ''192.168.1.1'' ''2024-0-17''
             \<mapsto> \<lparr>upload = 0, download = 524288000, lastReset = ''2024-0-17''\<rparr>])
     = Status429"
proof -
  have ip: "clientIp sampleRequest = ''192.168.1.1''"
    by (simp add: clientIp_def sampleRequest_def)
  have l: "UPLOAD_LIMIT None = 104857600" "DOWNLOAD_LIMIT None = 524288000"
    by (simp_all add: UPLOAD_LIMIT_def DOWNLOAD_LIMIT_def DEFAULT_UPLOAD_LIMIT_def
          DEFAULT_DOWNLOAD_LIMIT_def)
  have u: "\<And>store. fst (getUsage ''192.168.1.1'' ''2024-0-17'' store) =
             (case store (getUsageKey ''192.168.1.1'' ''2024-0-17'') of
                 None \<Rightarrow> (0, 0) | Some r \<Rightarrow> (upload r, download r))"
    by (simp add: getUsage_def getUsageRecord_def Let_def split: option.splits)
  from admission_checks [where env = None and today = "''2024-0-17''" and req = sampleRequest
          and f = "Some sampleFile" and store = Map.empty and env' = None]
       admission_checks [where env = None and today = "''2024-0-17''" and req = sampleRequest
          and f = "Some sampleFile" and env' = None and store =
          "[getUsageKey ''192.168.1.1'' ''2024-0-17''
             \<mapsto> \<lparr>upload = 104857599, download = 0, lastReset = ''2024-0-17''\<rparr>]"]
       admission_checks [where env = None and today = "''2024-0-17''" and req = sampleRequest
          and f = "Some sampleFile" and env' = None and store =
          "[getUsageKey ''192.168.1.1'' ''2024-0-17''
             \<mapsto> \<lparr>upload = 104857600, download = 0, lastReset = ''2024-0-17''\<rparr>]"]
       admission_checks [where env = None and today = "''2024-0-17''" and req = sampleRequest
          and f = "Some sampleFile" and env' = None and store =
          "[getUsageKey ''192.168.1.1'' ''2024-0-17''
             \<mapsto> \<lparr>upload = 0, download = 524288000, lastReset = ''2024-0-17''\<rparr>]"]
  show ?thesis
    by (simp add: ip l u)
qed

end
